theory Spec2Isabelle
  imports Main "HOL-Library.Sublist" "HOL-Library.Monad_Syntax"
begin

section \<open>JavaScript strings\<close>

text \<open>
  A JavaScript string is modelled as a \<^typ>\<open>string\<close>: a list of code units below 256
  (the Latin-1 range). On that range the built-ins used by the repository are written
  out in full: \<^verbatim>\<open>toLowerCase\<close>, the white space of \<^verbatim>\<open>trim\<close> and of the
  regular-expression class \<^verbatim>\<open>\s\<close>, and the word class \<^verbatim>\<open>\w\<close>.
\<close>

definition code :: "char \<Rightarrow> nat" where
  "code c = of_char c"

definition is_upper :: "char \<Rightarrow> bool" where
  "is_upper c = (65 \<le> code c \<and> code c \<le> 90)"

definition is_lower :: "char \<Rightarrow> bool" where
  "is_lower c = (97 \<le> code c \<and> code c \<le> 122)"

definition is_digit :: "char \<Rightarrow> bool" where
  "is_digit c = (48 \<le> code c \<and> code c \<le> 57)"

definition is_alnum :: "char \<Rightarrow> bool" where
  "is_alnum c = (is_upper c \<or> is_lower c \<or> is_digit c)"

definition is_lower_alnum :: "char \<Rightarrow> bool" where
  "is_lower_alnum c = (is_lower c \<or> is_digit c)"

text \<open>The class \<^verbatim>\<open>\w\<close> is \<^verbatim>\<open>[A-Za-z0-9_]\<close>.\<close>

definition is_word :: "char \<Rightarrow> bool" where
  "is_word c = (is_alnum c \<or> c = CHR ''_'')"

text \<open>
  White space below 256: tab, line feed, vertical tab, form feed, carriage return,
  space and the no-break space (160).
\<close>

definition is_space :: "char \<Rightarrow> bool" where
  "is_space c = (code c \<in> {9, 10, 11, 12, 13, 32, 160})"

text \<open>
  Latin-1 capitals with a Latin-1 small letter: \<^verbatim>\<open>A-Z\<close> and the range 192 to 222
  without the multiplication sign 215. Every other code unit below 256 is its own
  lower case.
\<close>

definition lower_char :: "char \<Rightarrow> char" where
  "lower_char c =
     (if is_upper c \<or> (192 \<le> code c \<and> code c \<le> 222 \<and> code c \<noteq> 215)
      then char_of (code c + 32) else c)"

definition toLowerCase :: "string \<Rightarrow> string" where
  "toLowerCase s = map lower_char s"

definition trim :: "string \<Rightarrow> string" where
  "trim s = rev (dropWhile is_space (rev (dropWhile is_space s)))"

text \<open>\<^verbatim>\<open>hay.includes(needle)\<close>: the needle occurs at some position of the hay.\<close>

fun str_includes :: "string \<Rightarrow> string \<Rightarrow> bool" where
  "str_includes [] needle = (needle = [])"
| "str_includes (h # hs) needle = (prefix needle (h # hs) \<or> str_includes hs needle)"

section \<open>Slug generator (utils/slug.ts)\<close>

text \<open>
  \<^verbatim>\<open>replace(/[^\w\s-]/g, '')\<close> deletes every character outside the three classes.
\<close>

definition keeps :: "char \<Rightarrow> bool" where
  "keeps c = (is_word c \<or> is_space c \<or> c = CHR ''-'')"

definition remove_special :: "string \<Rightarrow> string" where
  "remove_special s = filter keeps s"

text \<open>
  \<^verbatim>\<open>replace(/P+/g, '-')\<close> for a character class \<open>P\<close>: every maximal run of
  characters of the class becomes one hyphen. The flag says whether the character
  before belongs to a run already replaced.
\<close>

fun squeeze :: "(char \<Rightarrow> bool) \<Rightarrow> bool \<Rightarrow> string \<Rightarrow> string" where
  "squeeze P in_run [] = []"
| "squeeze P in_run (c # cs) =
     (if P c then (if in_run then squeeze P True cs else CHR ''-'' # squeeze P True cs)
      else c # squeeze P False cs)"

definition is_sep :: "char \<Rightarrow> bool" where
  "is_sep c = (is_space c \<or> c = CHR ''_'')"

definition is_hyphen :: "char \<Rightarrow> bool" where
  "is_hyphen c = (c = CHR ''-'')"

text \<open>\<^verbatim>\<open>replace(/^-+|-+$/g, '')\<close> deletes the leading and the trailing run of hyphens.\<close>

definition trim_hyphens :: "string \<Rightarrow> string" where
  "trim_hyphens s = rev (dropWhile is_hyphen (rev (dropWhile is_hyphen s)))"

definition createSlug :: "string \<Rightarrow> string" where
  "createSlug input =
     trim_hyphens
       (squeeze is_hyphen False
         (squeeze is_sep False
           (remove_special (trim (toLowerCase input)))))"

text \<open>
  \<^verbatim>\<open>/^[a-z0-9]+(?:-[a-z0-9]+)*$/.test(slug)\<close>, as the automaton of the expression:
  \<open>slug_group False\<close> expects the first character of a group, \<open>slug_group True\<close>
  is inside a group and accepts the end of the string.
\<close>

fun slug_group :: "bool \<Rightarrow> string \<Rightarrow> bool" where
  "slug_group inside [] = inside"
| "slug_group inside (c # cs) =
     (if is_lower_alnum c then slug_group True cs
      else if c = CHR ''-'' \<and> inside then slug_group False cs
      else False)"

definition isValidSlug :: "string \<Rightarrow> bool" where
  "isValidSlug s = slug_group False s"

text \<open>
  \<^verbatim>\<open>nanoid(n)\<close> comes from the package nanoid, which is not part of the repository.
  It draws one random byte per character and indexes its URL-safe alphabet of 64
  characters with the low six bits; the random bytes are the parameter \<open>bytes\<close>.
  The repository's own test expects the suffix to match \<^verbatim>\<open>[a-zA-Z0-9_-]+\<close>.
\<close>

definition urlAlphabet :: string where
  "urlAlphabet = ''useandom-26T198340PX75pxJACKVERYMINDBUSHWOLF_GQZbfghjklqvwyzrict''"

definition nanoid :: "nat list \<Rightarrow> nat \<Rightarrow> string" where
  "nanoid bytes n = map (\<lambda>b. urlAlphabet ! (b mod 64)) (take n bytes)"

definition createUniqueSlug :: "nat list \<Rightarrow> string \<Rightarrow> string" where
  "createUniqueSlug bytes input =
     (let baseSlug = createSlug input; uniqueId = nanoid bytes 6
      in baseSlug @ ''-'' @ uniqueId)"

text \<open>The characters of the URL-safe alphabet: \<^verbatim>\<open>[A-Za-z0-9_-]\<close>.\<close>

definition is_url_char :: "char \<Rightarrow> bool" where
  "is_url_char c = (is_alnum c \<or> c = CHR ''_'' \<or> c = CHR ''-'')"

text \<open>Two hyphens never stand side by side: the relation between neighbours of a slug.\<close>

definition no_double :: "char \<Rightarrow> char \<Rightarrow> bool" where
  "no_double a b = (\<not> (a = CHR ''-'' \<and> b = CHR ''-''))"

section \<open>Workflow discovery (workflows/discover.ts)\<close>

text \<open>
  A node of a workflow. \<^verbatim>\<open>isCronNode\<close> reads the type string only; the other fields
  of \<^verbatim>\<open>N8nNode\<close> (type version, position, parameters, credentials) are the
  extension of the record.
\<close>

record N8nNode =
  node_id :: "string option"
  node_name :: string
  node_type :: string

definition CRON_NODE_TYPES :: "string list" where
  "CRON_NODE_TYPES =
     [''n8n-nodes-base.cron'', ''n8n-nodes-base.scheduleTrigger'', ''n8n-nodes-base.schedule'']"

definition isCronNode :: "'a N8nNode_scheme \<Rightarrow> bool" where
  "isCronNode node =
     list_ex (\<lambda>t. str_includes (toLowerCase (node_type node)) (toLowerCase t) \<or>
                   str_includes (toLowerCase t) (toLowerCase (node_type node)))
       CRON_NODE_TYPES"

section \<open>Timestamps (utils/time.ts)\<close>

text \<open>
  \<^verbatim>\<open>getISOTimestamp()\<close> is \<^verbatim>\<open>new Date().toISOString()\<close>. The reading of the clock
  is a parameter: the UTC fields of the date. \<^verbatim>\<open>toISOString\<close> prints them as
  \<^verbatim>\<open>YYYY-MM-DDTHH:mm:ss.sssZ\<close>, the year with six digits and a sign beyond 9999.
\<close>

record Date =
  utcFullYear :: nat
  utcMonth :: nat
  utcDate :: nat
  utcHours :: nat
  utcMinutes :: nat
  utcSeconds :: nat
  utcMilliseconds :: nat

fun decimal :: "nat \<Rightarrow> string" where
  "decimal n =
     (if n < 10 then [char_of (48 + n)] else decimal (n div 10) @ [char_of (48 + n mod 10)])"

definition pad :: "nat \<Rightarrow> nat \<Rightarrow> string" where
  "pad width n = replicate (width - length (decimal n)) (CHR ''0'') @ decimal n"

text \<open>The month of a JavaScript date counts from 0; the text counts from 1.\<close>

definition toISOString :: "Date \<Rightarrow> string" where
  "toISOString d =
     (if utcFullYear d \<le> 9999 then pad 4 (utcFullYear d) else ''+'' @ pad 6 (utcFullYear d))
     @ ''-'' @ pad 2 (utcMonth d + 1) @ ''-'' @ pad 2 (utcDate d)
     @ ''T'' @ pad 2 (utcHours d) @ '':'' @ pad 2 (utcMinutes d) @ '':'' @ pad 2 (utcSeconds d)
     @ ''.'' @ pad 3 (utcMilliseconds d) @ ''Z''"

definition getISOTimestamp :: "Date \<Rightarrow> string" where
  "getISOTimestamp now = toISOString now"

section \<open>Errors (utils/errors.ts)\<close>

text \<open>
  The message of an \<^verbatim>\<open>ApiError\<close>: the default text with the status code, the
  \<^verbatim>\<open>message\<close> field of the server's error document, the text \<^verbatim>\<open>Request failed:\<close>
  with the message of the transport's error, or the text for a thrown value that is no
  \<^verbatim>\<open>Error\<close>.
\<close>

datatype api_message =
    StatusMessage nat
  | ServerMessage string
  | RequestFailed string
  | Unexpected

datatype error =
    FileError string
  | ZodError
  | ApiError api_message "nat option"

section \<open>JSON documents and the file system (utils/fs.ts)\<close>

text \<open>
  A JSON value as \<^verbatim>\<open>JSON.parse\<close> returns it; an object is the list of its properties.
  A property whose value is \<^verbatim>\<open>undefined\<close> is absent from the list, as it is from the
  text that \<^verbatim>\<open>JSON.stringify\<close> writes.
\<close>

datatype json =
    JNull
  | JBool bool
  | JNum int
  | JStr string
  | JArr "json list"
  | JObj "(string \<times> json) list"

text \<open>
  A file is unreadable, or holds text that is no JSON, or holds a JSON document.
  Writing to a path fails where the path is not writable (the directory cannot be
  made, or the file cannot be written).
\<close>

datatype file_content = Unreadable | NotJson | Doc json

record FileSystem =
  files :: "string \<Rightarrow> file_content option"
  writable :: "string \<Rightarrow> bool"
  homeDir :: string
  cwd :: string

text \<open>
  \<^verbatim>\<open>join\<close> of the package pathe puts a slash between the segments; the normal form
  it computes afterwards is left out, paths are compared as written.
\<close>

fun join :: "string list \<Rightarrow> string" where
  "join [] = ''.''"
| "join [p] = p"
| "join (p # ps) = p @ ''/'' @ join ps"

definition exists_file :: "FileSystem \<Rightarrow> string \<Rightarrow> bool" where
  "exists_file fs filePath = (files fs filePath \<noteq> None)"

definition readJson :: "FileSystem \<Rightarrow> string \<Rightarrow> error + json" where
  "readJson fs filePath =
     (case files fs filePath of
        None \<Rightarrow> Inl (FileError (''File not found: '' @ filePath))
      | Some Unreadable \<Rightarrow> Inl (FileError (''Failed to read file: '' @ filePath))
      | Some NotJson \<Rightarrow> Inl (FileError (''Invalid JSON in file: '' @ filePath))
      | Some (Doc j) \<Rightarrow> Inr j)"

definition writeJson :: "FileSystem \<Rightarrow> string \<Rightarrow> json \<Rightarrow> error + FileSystem" where
  "writeJson fs filePath data =
     (if writable fs filePath
      then Inr (fs\<lparr>files := (files fs)(filePath \<mapsto> Doc data)\<rparr>)
      else Inl (FileError (''Failed to write file: '' @ filePath)))"

subsection \<open>Schemas of the package zod\<close>

text \<open>
  A schema applied to the value of a property, \<open>None\<close> for an absent property. The
  result \<open>None\<close> is the validation error. \<^verbatim>\<open>z.object\<close> reads the properties it
  names and drops the others.
\<close>

definition property :: "(string \<times> json) list \<Rightarrow> string \<Rightarrow> json option" where
  "property ps key = map_of ps key"

fun z_string :: "json option \<Rightarrow> string option" where
  "z_string (Some (JStr s)) = Some s"
| "z_string _ = None"

fun z_string_optional :: "json option \<Rightarrow> string option option" where
  "z_string_optional None = Some None"
| "z_string_optional (Some (JStr s)) = Some (Some s)"
| "z_string_optional (Some _) = None"

fun z_string_array :: "json option \<Rightarrow> string list option" where
  "z_string_array (Some (JArr xs)) = those (map (\<lambda>x. z_string (Some x)) xs)"
| "z_string_array _ = None"

text \<open>The property an optional field becomes in the written document.\<close>

fun optional_property :: "string \<Rightarrow> string option \<Rightarrow> (string \<times> json) list" where
  "optional_property key None = []"
| "optional_property key (Some s) = [(key, JStr s)]"

section \<open>Registry (config/registry.ts)\<close>

record RegistryEntry =
  slug :: string
  projectPath :: string
  manifestPath :: string
  workflowId :: "string option"
  lastSyncedAt :: "string option"

record Registry =
  workflows :: "RegistryEntry list"

fun RegistryEntrySchema_parse :: "json \<Rightarrow> RegistryEntry option" where
  "RegistryEntrySchema_parse (JObj ps) =
     do {
       s \<leftarrow> z_string (property ps ''slug'');
       p \<leftarrow> z_string (property ps ''projectPath'');
       m \<leftarrow> z_string (property ps ''manifestPath'');
       w \<leftarrow> z_string_optional (property ps ''workflowId'');
       l \<leftarrow> z_string_optional (property ps ''lastSyncedAt'');
       Some \<lparr>slug = s, projectPath = p, manifestPath = m, workflowId = w, lastSyncedAt = l\<rparr>
     }"
| "RegistryEntrySchema_parse _ = None"

fun RegistrySchema_parse :: "json \<Rightarrow> Registry option" where
  "RegistrySchema_parse (JObj ps) =
     (case property ps ''workflows'' of
        Some (JArr items) \<Rightarrow>
          map_option (\<lambda>es. \<lparr>workflows = es\<rparr>) (those (map RegistryEntrySchema_parse items))
      | _ \<Rightarrow> None)"
| "RegistrySchema_parse _ = None"

definition entry_json :: "RegistryEntry \<Rightarrow> json" where
  "entry_json e =
     JObj ([(''slug'', JStr (slug e)), (''projectPath'', JStr (projectPath e)),
            (''manifestPath'', JStr (manifestPath e))]
           @ optional_property ''workflowId'' (workflowId e)
           @ optional_property ''lastSyncedAt'' (lastSyncedAt e))"

definition registry_json :: "Registry \<Rightarrow> json" where
  "registry_json r = JObj [(''workflows'', JArr (map entry_json (workflows r)))]"

definition REGISTRY_DIR :: "FileSystem \<Rightarrow> string" where
  "REGISTRY_DIR fs = join [homeDir fs, ''.cron8n'']"

definition REGISTRY_FILE :: "FileSystem \<Rightarrow> string" where
  "REGISTRY_FILE fs = join [REGISTRY_DIR fs, ''registry.json'']"

text \<open>A missing, unreadable or invalid registry file is the empty registry.\<close>

definition loadRegistry :: "FileSystem \<Rightarrow> Registry" where
  "loadRegistry fs =
     (if \<not> exists_file fs (REGISTRY_FILE fs) then \<lparr>workflows = []\<rparr>
      else case readJson fs (REGISTRY_FILE fs) of
             Inl err \<Rightarrow> \<lparr>workflows = []\<rparr>
           | Inr data \<Rightarrow>
               (case RegistrySchema_parse data of
                  None \<Rightarrow> \<lparr>workflows = []\<rparr>
                | Some registry \<Rightarrow> registry))"

definition saveRegistry :: "FileSystem \<Rightarrow> Registry \<Rightarrow> error + FileSystem" where
  "saveRegistry fs registry = writeJson fs (REGISTRY_FILE fs) (registry_json registry)"

text \<open>\<^verbatim>\<open>Array.prototype.findIndex\<close>: the first index whose element passes, or \<open>-1\<close>.\<close>

fun findIndex :: "('a \<Rightarrow> bool) \<Rightarrow> 'a list \<Rightarrow> int" where
  "findIndex P [] = - 1"
| "findIndex P (x # xs) =
     (if P x then 0 else (let i = findIndex P xs in if i < 0 then - 1 else i + 1))"

definition same_identity :: "string \<Rightarrow> string \<Rightarrow> RegistryEntry \<Rightarrow> bool" where
  "same_identity s p w = (slug w = s \<and> projectPath w = p)"

text \<open>
  The argument has the type \<^verbatim>\<open>Omit<RegistryEntry, 'lastSyncedAt'>\<close>; the new entry
  is the argument's properties with \<^verbatim>\<open>lastSyncedAt\<close> set last.
\<close>

definition upsertRegistryEntry ::
  "FileSystem \<Rightarrow> Date \<Rightarrow> RegistryEntry \<Rightarrow> error + FileSystem" where
  "upsertRegistryEntry fs now entry =
     (let registry = loadRegistry fs;
          existingIndex = findIndex (same_identity (slug entry) (projectPath entry))
                            (workflows registry);
          newEntry = entry\<lparr>lastSyncedAt := Some (getISOTimestamp now)\<rparr>
      in if existingIndex \<ge> 0
         then saveRegistry fs
                (registry\<lparr>workflows := (workflows registry)[nat existingIndex := newEntry]\<rparr>)
         else saveRegistry fs (registry\<lparr>workflows := workflows registry @ [newEntry]\<rparr>))"

text \<open>
  \<^verbatim>\<open>find\<close> returns the first matching element of the array itself, so the two
  assignments change that element in place.
\<close>

fun update_first :: "('a \<Rightarrow> bool) \<Rightarrow> ('a \<Rightarrow> 'a) \<Rightarrow> 'a list \<Rightarrow> 'a list" where
  "update_first P f [] = []"
| "update_first P f (x # xs) = (if P x then f x # xs else x # update_first P f xs)"

definition updateWorkflowId ::
  "FileSystem \<Rightarrow> Date \<Rightarrow> string \<Rightarrow> string \<Rightarrow> string \<Rightarrow> error + FileSystem" where
  "updateWorkflowId fs now s p wid =
     (let registry = loadRegistry fs
      in case find (same_identity s p) (workflows registry) of
           Some entry \<Rightarrow>
             saveRegistry fs
               (registry\<lparr>workflows :=
                  update_first (same_identity s p)
                    (\<lambda>e. e\<lparr>workflowId := Some wid, lastSyncedAt := Some (getISOTimestamp now)\<rparr>)
                    (workflows registry)\<rparr>)
         | None \<Rightarrow> Inr fs)"

definition removeRegistryEntry ::
  "FileSystem \<Rightarrow> string \<Rightarrow> string \<Rightarrow> error + (bool \<times> FileSystem)" where
  "removeRegistryEntry fs s p =
     (let registry = loadRegistry fs;
          initialLength = length (workflows registry);
          registry' = registry\<lparr>workflows := filter (\<lambda>w. \<not> same_identity s p w) (workflows registry)\<rparr>
      in if length (workflows registry') < initialLength
         then (case saveRegistry fs registry' of
                 Inl err \<Rightarrow> Inl err
               | Inr fs' \<Rightarrow> Inr (True, fs'))
         else Inr (False, fs))"

definition getAllEntries :: "FileSystem \<Rightarrow> RegistryEntry list" where
  "getAllEntries fs = workflows (loadRegistry fs)"

definition getEntry :: "FileSystem \<Rightarrow> string \<Rightarrow> string \<Rightarrow> RegistryEntry option" where
  "getEntry fs s p = find (same_identity s p) (workflows (loadRegistry fs))"

text \<open>At most one entry for each pair of slug and project path.\<close>

definition unique_identities :: "RegistryEntry list \<Rightarrow> bool" where
  "unique_identities es = distinct (map (\<lambda>e. (slug e, projectPath e)) es)"

section \<open>Manifest store (workflows/manifest.ts)\<close>

record Manifest =
  m_slug :: string
  m_name :: string
  createdAt :: string
  template :: string
  cronExpression :: string
  timezone :: string
  m_tags :: "string list"
  lastDeployedWorkflowId :: "string option"
  lastDeployedAt :: "string option"

fun ManifestSchema_parse :: "json \<Rightarrow> Manifest option" where
  "ManifestSchema_parse (JObj ps) =
     do {
       s \<leftarrow> z_string (property ps ''slug'');
       n \<leftarrow> z_string (property ps ''name'');
       c \<leftarrow> z_string (property ps ''createdAt'');
       t \<leftarrow> z_string (property ps ''template'');
       e \<leftarrow> z_string (property ps ''cronExpression'');
       z \<leftarrow> z_string (property ps ''timezone'');
       g \<leftarrow> z_string_array (property ps ''tags'');
       w \<leftarrow> z_string_optional (property ps ''lastDeployedWorkflowId'');
       a \<leftarrow> z_string_optional (property ps ''lastDeployedAt'');
       Some \<lparr>m_slug = s, m_name = n, createdAt = c, template = t, cronExpression = e,
             timezone = z, m_tags = g, lastDeployedWorkflowId = w, lastDeployedAt = a\<rparr>
     }"
| "ManifestSchema_parse _ = None"

definition manifest_json :: "Manifest \<Rightarrow> json" where
  "manifest_json m =
     JObj ([(''slug'', JStr (m_slug m)), (''name'', JStr (m_name m)),
            (''createdAt'', JStr (createdAt m)), (''template'', JStr (template m)),
            (''cronExpression'', JStr (cronExpression m)), (''timezone'', JStr (timezone m)),
            (''tags'', JArr (map JStr (m_tags m)))]
           @ optional_property ''lastDeployedWorkflowId'' (lastDeployedWorkflowId m)
           @ optional_property ''lastDeployedAt'' (lastDeployedAt m))"

definition WORKFLOWS_DIR :: string where
  "WORKFLOWS_DIR = ''workflows''"

definition getWorkflowsDir :: "FileSystem \<Rightarrow> string option \<Rightarrow> string" where
  "getWorkflowsDir fs basePath =
     join [case basePath of None \<Rightarrow> cwd fs | Some b \<Rightarrow> b, WORKFLOWS_DIR]"

definition getManifestPath :: "FileSystem \<Rightarrow> string \<Rightarrow> string option \<Rightarrow> string" where
  "getManifestPath fs s basePath = join [getWorkflowsDir fs basePath, s @ ''.cron8n.json'']"

definition createTags :: "string \<Rightarrow> string list" where
  "createTags s = [''managed-by:cron8n'', ''cron8n:'' @ s]"

definition createManifest ::
  "Date \<Rightarrow> string \<Rightarrow> string \<Rightarrow> string \<Rightarrow> string \<Rightarrow> string \<Rightarrow> Manifest" where
  "createManifest now s n t e z =
     \<lparr>m_slug = s, m_name = n, createdAt = getISOTimestamp now, template = t,
      cronExpression = e, timezone = z, m_tags = createTags s,
      lastDeployedWorkflowId = None, lastDeployedAt = None\<rparr>"

definition loadManifest :: "FileSystem \<Rightarrow> string \<Rightarrow> string option \<Rightarrow> error + Manifest" where
  "loadManifest fs s basePath =
     (case readJson fs (getManifestPath fs s basePath) of
        Inl err \<Rightarrow> Inl err
      | Inr data \<Rightarrow>
          (case ManifestSchema_parse data of
             None \<Rightarrow> Inl ZodError
           | Some manifest \<Rightarrow> Inr manifest))"

definition saveManifest :: "FileSystem \<Rightarrow> Manifest \<Rightarrow> string option \<Rightarrow> error + FileSystem" where
  "saveManifest fs manifest basePath =
     writeJson fs (getManifestPath fs (m_slug manifest) basePath) (manifest_json manifest)"

definition updateManifestDeployment ::
  "FileSystem \<Rightarrow> Date \<Rightarrow> string \<Rightarrow> string \<Rightarrow> string option \<Rightarrow> error + (Manifest \<times> FileSystem)" where
  "updateManifestDeployment fs now s wid basePath =
     (case loadManifest fs s basePath of
        Inl err \<Rightarrow> Inl err
      | Inr manifest \<Rightarrow>
          (let manifest' = manifest\<lparr>lastDeployedWorkflowId := Some wid,
                                     lastDeployedAt := Some (getISOTimestamp now)\<rparr>
           in case saveManifest fs manifest' basePath of
                Inl err \<Rightarrow> Inl err
              | Inr fs' \<Rightarrow> Inr (manifest', fs')))"

section \<open>Remote API client (api/n8nClient.ts)\<close>

record N8nTag =
  tag_id :: string
  tag_name :: string

text \<open>
  Of a workflow the client reads the tags only; the nodes, connections and settings
  are the extension of the record.
\<close>

record N8nWorkflow =
  wf_id :: "string option"
  wf_name :: string
  wf_active :: "bool option"
  wf_tags :: "N8nTag list option"

text \<open>
  The JSON document of a response, by the schema it satisfies: the page of a workflow
  list with its cursor (\<open>None\<close> for an absent or \<^verbatim>\<open>null\<close> cursor), a tag list, a tag,
  a workflow, an error document with a \<^verbatim>\<open>message\<close>, the empty object, anything else.
\<close>

datatype payload =
    WorkflowListResponse "N8nWorkflow list" "string option"
  | TagListResponse "N8nTag list"
  | TagDocument N8nTag
  | WorkflowDocument N8nWorkflow
  | ErrorDocument string
  | EmptyObject
  | OtherDocument

datatype http_body = EmptyBody | MalformedBody string | JsonBody payload

text \<open>
  What the transport does with a request: it throws an \<^verbatim>\<open>Error\<close> with a message,
  it throws something else, or it answers with a status code and a body.
\<close>

datatype http_result = Rejected string | RejectedValue | Responded nat http_body

datatype http_method = GET | POST | PUT | DELETE

datatype query_param = Limit int | Cursor string | Active bool | Tags string

datatype api_path =
    WorkflowsPath "query_param list"
  | WorkflowPath string
  | TagsPath
  | WorkflowTagsPath string

record http_request =
  req_method :: http_method
  req_path :: api_path
  req_body :: "json option"

text \<open>
  The server is a state machine: from its state and a request it gives a result and
  its next state. The network is the server's state and the requests sent so far.
\<close>

type_synonym 's server = "'s \<Rightarrow> http_request \<Rightarrow> http_result \<times> 's"

record 's network =
  server_state :: 's
  sent :: "http_request list"

definition api_result :: "http_result \<Rightarrow> error + payload" where
  "api_result r =
     (case r of
        Rejected m \<Rightarrow> Inl (ApiError (RequestFailed m) None)
      | RejectedValue \<Rightarrow> Inl (ApiError Unexpected None)
      | Responded statusCode responseBody \<Rightarrow>
          if statusCode \<ge> 400
          then Inl (ApiError
                 (case responseBody of
                    JsonBody (ErrorDocument m) \<Rightarrow>
                      if m \<noteq> [] then ServerMessage m else StatusMessage statusCode
                  | _ \<Rightarrow> StatusMessage statusCode)
                 (Some statusCode))
          else (case responseBody of
                  EmptyBody \<Rightarrow> Inr EmptyObject
                | MalformedBody m \<Rightarrow> Inl (ApiError (RequestFailed m) None)
                | JsonBody p \<Rightarrow> Inr p))"

definition request ::
  "'s server \<Rightarrow> http_method \<Rightarrow> api_path \<Rightarrow> json option \<Rightarrow> 's network
     \<Rightarrow> (error + payload) \<times> 's network" where
  "request srv m p b net =
     (let req = \<lparr>req_method = m, req_path = p, req_body = b\<rparr>;
          (res, st) = srv (server_state net) req
      in (api_result res, \<lparr>server_state = st, sent = sent net @ [req]\<rparr>))"

record ListWorkflowsOptions =
  opt_active :: "bool option"
  opt_tags :: "string list option"
  opt_limit :: "int option"
  opt_cursor :: "string option"

text \<open>
  The truth value JavaScript gives an optional number and an optional string:
  \<^verbatim>\<open>undefined\<close>, \<open>0\<close> and the empty string are false. The limit is a whole number.
\<close>

fun truthy_number :: "int option \<Rightarrow> bool" where
  "truthy_number None = False"
| "truthy_number (Some n) = (n \<noteq> 0)"

fun truthy_string :: "string option \<Rightarrow> bool" where
  "truthy_string None = False"
| "truthy_string (Some s) = (s \<noteq> [])"

definition list_params :: "ListWorkflowsOptions \<Rightarrow> string option \<Rightarrow> query_param list" where
  "list_params options cursor =
     (if truthy_number (opt_limit options) then [Limit (the (opt_limit options))] else [])
     @ (if truthy_string cursor then [Cursor (the cursor)] else [])
     @ (case opt_active options of None \<Rightarrow> [] | Some a \<Rightarrow> [Active a])
     @ (case opt_tags options of None \<Rightarrow> [] | Some ts \<Rightarrow> map Tags ts)"

fun WorkflowListResponseSchema_parse :: "payload \<Rightarrow> (N8nWorkflow list \<times> string option) option" where
  "WorkflowListResponseSchema_parse (WorkflowListResponse d c) = Some (d, c)"
| "WorkflowListResponseSchema_parse _ = None"

text \<open>
  The \<^verbatim>\<open>do ... while (cursor)\<close> loop of \<^verbatim>\<open>listWorkflows\<close>. It need not end: the
  result \<open>None\<close> is a run that never returns. \<open>collected\<close> is the array
  \<^verbatim>\<open>workflows\<close> of the source.
\<close>

partial_function (option) listWorkflows_loop ::
  "'s server \<Rightarrow> ListWorkflowsOptions \<Rightarrow> N8nWorkflow list \<Rightarrow> string option \<Rightarrow> 's network
     \<Rightarrow> ((error + N8nWorkflow list) \<times> 's network) option" where
  "listWorkflows_loop srv options collected cursor net =
     (case request srv GET (WorkflowsPath (list_params options cursor)) None net of
        (Inl err, net') \<Rightarrow> Some (Inl err, net')
      | (Inr response, net') \<Rightarrow>
          (case WorkflowListResponseSchema_parse response of
             None \<Rightarrow> Some (Inl ZodError, net')
           | Some (d, nextCursor) \<Rightarrow>
               if truthy_number (opt_limit options) then Some (Inr (collected @ d), net')
               else if truthy_string nextCursor
                    then listWorkflows_loop srv options (collected @ d) nextCursor net'
                    else Some (Inr (collected @ d), net')))"

definition listWorkflows ::
  "'s server \<Rightarrow> ListWorkflowsOptions \<Rightarrow> 's network
     \<Rightarrow> ((error + N8nWorkflow list) \<times> 's network) option" where
  "listWorkflows srv options net = listWorkflows_loop srv options [] (opt_cursor options) net"

definition getWorkflow ::
  "'s server \<Rightarrow> string \<Rightarrow> 's network \<Rightarrow> (error + N8nWorkflow) \<times> 's network" where
  "getWorkflow srv wid net =
     (case request srv GET (WorkflowPath wid) None net of
        (Inl err, net') \<Rightarrow> (Inl err, net')
      | (Inr (WorkflowDocument w), net') \<Rightarrow> (Inr w, net')
      | (Inr _, net') \<Rightarrow> (Inl ZodError, net'))"

definition listTags :: "'s server \<Rightarrow> 's network \<Rightarrow> (error + N8nTag list) \<times> 's network" where
  "listTags srv net =
     (case request srv GET TagsPath None net of
        (Inl err, net') \<Rightarrow> (Inl err, net')
      | (Inr (TagListResponse ts), net') \<Rightarrow> (Inr ts, net')
      | (Inr _, net') \<Rightarrow> (Inl ZodError, net'))"

definition createTag ::
  "'s server \<Rightarrow> string \<Rightarrow> 's network \<Rightarrow> (error + N8nTag) \<times> 's network" where
  "createTag srv n net =
     (case request srv POST TagsPath (Some (JObj [(''name'', JStr n)])) net of
        (Inl err, net') \<Rightarrow> (Inl err, net')
      | (Inr (TagDocument t), net') \<Rightarrow> (Inr t, net')
      | (Inr _, net') \<Rightarrow> (Inl ZodError, net'))"

definition getOrCreateTag ::
  "'s server \<Rightarrow> string \<Rightarrow> 's network \<Rightarrow> (error + N8nTag) \<times> 's network" where
  "getOrCreateTag srv n net =
     (case listTags srv net of
        (Inl err, net') \<Rightarrow> (Inl err, net')
      | (Inr tags, net') \<Rightarrow>
          (case find (\<lambda>t. tag_name t = n) tags of
             Some existingTag \<Rightarrow> (Inr existingTag, net')
           | None \<Rightarrow> createTag srv n net'))"

definition setWorkflowTags ::
  "'s server \<Rightarrow> string \<Rightarrow> string list \<Rightarrow> 's network \<Rightarrow> (error + unit) \<times> 's network" where
  "setWorkflowTags srv wid tagIds net =
     (let tagObjects = JArr (map (\<lambda>i. JObj [(''id'', JStr i)]) tagIds)
      in case request srv PUT (WorkflowTagsPath wid) (Some tagObjects) net of
           (Inl err, net') \<Rightarrow> (Inl err, net')
         | (Inr _, net') \<Rightarrow> (Inr (), net'))"

text \<open>
  \<^verbatim>\<open>[...new Set(xs)]\<close>: the elements of \<open>xs\<close> in the order of their first occurrence.
\<close>

definition new_Set :: "'a list \<Rightarrow> 'a list" where
  "new_Set xs = fold (\<lambda>x seen. if x \<in> set seen then seen else seen @ [x]) xs []"

text \<open>The \<^verbatim>\<open>for\<close> loop of \<^verbatim>\<open>addTagsToWorkflow\<close> over the tag names.\<close>

fun collect_tag_ids ::
  "'s server \<Rightarrow> string list \<Rightarrow> string list \<Rightarrow> 's network \<Rightarrow> (error + string list) \<times> 's network" where
  "collect_tag_ids srv [] tagIds net = (Inr tagIds, net)"
| "collect_tag_ids srv (n # names) tagIds net =
     (case getOrCreateTag srv n net of
        (Inl err, net') \<Rightarrow> (Inl err, net')
      | (Inr tag, net') \<Rightarrow> collect_tag_ids srv names (tagIds @ [tag_id tag]) net')"

definition existingTagIds :: "N8nWorkflow \<Rightarrow> string list" where
  "existingTagIds workflow = (case wf_tags workflow of None \<Rightarrow> [] | Some ts \<Rightarrow> map tag_id ts)"

definition addTagsToWorkflow ::
  "'s server \<Rightarrow> string \<Rightarrow> string list \<Rightarrow> 's network \<Rightarrow> (error + unit) \<times> 's network" where
  "addTagsToWorkflow srv wid tagNames net =
     (case collect_tag_ids srv tagNames [] net of
        (Inl err, net1) \<Rightarrow> (Inl err, net1)
      | (Inr tagIds, net1) \<Rightarrow>
          (case getWorkflow srv wid net1 of
             (Inl err, net2) \<Rightarrow> (Inl err, net2)
           | (Inr workflow, net2) \<Rightarrow>
               (let allTagIds = new_Set (existingTagIds workflow @ tagIds)
                in setWorkflowTags srv wid allTagIds net2)))"

section \<open>Cron expressions (utils/time.ts)\<close>

text \<open>
  \<^verbatim>\<open>parseCron\<close> calls the package cron-parser, which is not part of the repository.
  The package is a parameter: \<^verbatim>\<open>parseExpression\<close> takes the expression, the time zone
  and the current date, and either throws or returns an iterator; \<^verbatim>\<open>next\<close> either
  throws or returns the next date and the iterator moved on. A date is its number of
  milliseconds since the epoch. What is thrown is an \<^verbatim>\<open>Error\<close> with its message, or
  some other value.
\<close>

type_synonym timestamp = int

datatype thrown = ThrownError string | ThrownValue

record 'i CronParser =
  parseExpression :: "string \<Rightarrow> string \<Rightarrow> timestamp \<Rightarrow> thrown + 'i"
  next_date :: "'i \<Rightarrow> thrown + (timestamp \<times> 'i)"

record CronInfo =
  expression :: string
  isValid :: bool
  nextRuns :: "timestamp list"
  error :: "string option"

text \<open>The \<^verbatim>\<open>for\<close> loop: \<open>n\<close> calls of \<^verbatim>\<open>next\<close>, the first throw ends it.\<close>

fun next_runs :: "'i CronParser \<Rightarrow> nat \<Rightarrow> 'i \<Rightarrow> thrown + timestamp list" where
  "next_runs lib 0 interval = Inr []"
| "next_runs lib (Suc n) interval =
     (case next_date lib interval of
        Inl t \<Rightarrow> Inl t
      | Inr (d, interval') \<Rightarrow>
          (case next_runs lib n interval' of
             Inl t \<Rightarrow> Inl t
           | Inr ds \<Rightarrow> Inr (d # ds)))"

definition caught :: "string \<Rightarrow> thrown \<Rightarrow> CronInfo" where
  "caught e t =
     \<lparr>expression = e, isValid = False, nextRuns = [],
      error = Some (case t of ThrownError m \<Rightarrow> m | ThrownValue \<Rightarrow> ''Invalid cron expression'')\<rparr>"

text \<open>
  The time zone defaults to \<^verbatim>\<open>Europe/Istanbul\<close> and the count to 5. The loop runs
  while \<^verbatim>\<open>i < count\<close> from 0, that is \<open>nat count\<close> times for a whole number.
\<close>

definition parseCron ::
  "'i CronParser \<Rightarrow> timestamp \<Rightarrow> string \<Rightarrow> string option \<Rightarrow> int option \<Rightarrow> CronInfo" where
  "parseCron lib now e tz cnt =
     (let zone = (case tz of None \<Rightarrow> ''Europe/Istanbul'' | Some z \<Rightarrow> z);
          n = (case cnt of None \<Rightarrow> 5 | Some c \<Rightarrow> c)
      in case parseExpression lib e zone now of
           Inl t \<Rightarrow> caught e t
         | Inr interval \<Rightarrow>
             (case next_runs lib (nat n) interval of
                Inl t \<Rightarrow> caught e t
              | Inr runs \<Rightarrow> \<lparr>expression = e, isValid = True, nextRuns = runs, error = None\<rparr>))"

section \<open>Runs of the client against a server\<close>

text \<open>The requests the client sends.\<close>

definition list_request :: "ListWorkflowsOptions \<Rightarrow> string option \<Rightarrow> http_request" where
  "list_request options cursor =
     \<lparr>req_method = GET, req_path = WorkflowsPath (list_params options cursor), req_body = None\<rparr>"

definition tag_list_request :: http_request where
  "tag_list_request = \<lparr>req_method = GET, req_path = TagsPath, req_body = None\<rparr>"

definition tag_create_request :: "string \<Rightarrow> http_request" where
  "tag_create_request n =
     \<lparr>req_method = POST, req_path = TagsPath, req_body = Some (JObj [(''name'', JStr n)])\<rparr>"

definition workflow_request :: "string \<Rightarrow> http_request" where
  "workflow_request wid = \<lparr>req_method = GET, req_path = WorkflowPath wid, req_body = None\<rparr>"

definition set_tags_request :: "string \<Rightarrow> string list \<Rightarrow> http_request" where
  "set_tags_request wid tagIds =
     \<lparr>req_method = PUT, req_path = WorkflowTagsPath wid,
      req_body = Some (JArr (map (\<lambda>i. JObj [(''id'', JStr i)]) tagIds))\<rparr>"

text \<open>
  The server answers a request with a document: the client's \<^verbatim>\<open>request\<close>, sent to
  the server in state \<open>s\<close>, returns the document and leaves the server in state \<open>s'\<close>.
\<close>

definition answers :: "'s server \<Rightarrow> 's \<Rightarrow> http_request \<Rightarrow> payload \<Rightarrow> 's \<Rightarrow> bool" where
  "answers srv s req doc s' = (case srv s req of (res, t) \<Rightarrow> api_result res = Inr doc \<and> t = s')"

text \<open>
  The server, asked for the list of workflows from a cursor on, serves a sequence of
  pages: every page but the last carries a cursor, which the next request presents,
  and the last page carries none (an absent, \<^verbatim>\<open>null\<close> or empty cursor).
\<close>

inductive pages_served ::
  "'s server \<Rightarrow> ListWorkflowsOptions \<Rightarrow> string option \<Rightarrow> 's
     \<Rightarrow> (N8nWorkflow list \<times> string option) list \<Rightarrow> 's \<Rightarrow> bool"
  for srv :: "'s server" and options :: ListWorkflowsOptions where
  last_page:
    "answers srv s (list_request options cursor) (WorkflowListResponse d c) s' \<Longrightarrow>
     \<not> truthy_string c \<Longrightarrow>
     pages_served srv options cursor s [(d, c)] s'"
| next_page:
    "answers srv s (list_request options cursor) (WorkflowListResponse d c) s1 \<Longrightarrow>
     truthy_string c \<Longrightarrow>
     pages_served srv options c s1 ps s' \<Longrightarrow>
     pages_served srv options cursor s ((d, c) # ps) s'"

code_pred pages_served .

text \<open>
  The server resolves a list of tag names: for each name in turn it answers one
  tag-list request, and, where the listing has no tag of that name, one request that
  creates the tag. The relation gives the ids of the tags found or created, the
  server's last state and the requests answered.
\<close>

inductive tags_resolved ::
  "'s server \<Rightarrow> string list \<Rightarrow> 's \<Rightarrow> string list \<Rightarrow> 's \<Rightarrow> http_request list \<Rightarrow> bool"
  for srv :: "'s server" where
  no_names: "tags_resolved srv [] s [] s []"
| tag_found:
    "answers srv s tag_list_request (TagListResponse ts) s1 \<Longrightarrow>
     find (\<lambda>t. tag_name t = n) ts = Some t \<Longrightarrow>
     tags_resolved srv names s1 ids s' reqs \<Longrightarrow>
     tags_resolved srv (n # names) s (tag_id t # ids) s' (tag_list_request # reqs)"
| tag_created:
    "answers srv s tag_list_request (TagListResponse ts) s1 \<Longrightarrow>
     find (\<lambda>t. tag_name t = n) ts = None \<Longrightarrow>
     answers srv s1 (tag_create_request n) (TagDocument t) s2 \<Longrightarrow>
     tags_resolved srv names s2 ids s' reqs \<Longrightarrow>
     tags_resolved srv (n # names) s (tag_id t # ids) s'
       (tag_list_request # tag_create_request n # reqs)"

code_pred tags_resolved .

text \<open>
  A server that plays back a list of results, one for each request, as the mocked
  transport of the repository's tests does.
\<close>

fun scripted :: "http_result list server" where
  "scripted [] req = (Rejected ''no response left'', [])"
| "scripted (r # rs) req = (r, rs)"

definition ok :: "payload \<Rightarrow> http_result" where
  "ok p = Responded 200 (JsonBody p)"

text \<open>A server that has one more page for every request.\<close>

definition endless :: "nat server" where
  "endless n req = (ok (WorkflowListResponse [] (Some ''more'')), Suc n)"

text \<open>Two workflows, and the two pages a server serves them on.\<close>

definition first_workflow :: N8nWorkflow where
  "first_workflow =
     \<lparr>wf_id = Some ''123'', wf_name = ''Test Workflow'', wf_active = Some True, wf_tags = None\<rparr>"

definition second_workflow :: N8nWorkflow where
  "second_workflow =
     \<lparr>wf_id = Some ''456'', wf_name = ''Second Workflow'', wf_active = Some True,
      wf_tags = Some [\<lparr>tag_id = ''7'', tag_name = ''legacy''\<rparr>]\<rparr>"

definition two_pages :: "http_result list" where
  "two_pages =
     [ok (WorkflowListResponse [first_workflow] (Some ''cursor1'')),
      ok (WorkflowListResponse [second_workflow] None)]"

definition list_options :: "int option \<Rightarrow> ListWorkflowsOptions" where
  "list_options limit = \<lparr>opt_active = None, opt_tags = None, opt_limit = limit, opt_cursor = None\<rparr>"

text \<open>
  The results a server gives while the two management tags of the slug
  \<^verbatim>\<open>daily-backup\<close> are added to a workflow: the first tag exists, the second is
  created, the workflow carries one tag already.
\<close>

definition managed_tag :: N8nTag where
  "managed_tag = \<lparr>tag_id = ''1'', tag_name = ''managed-by:cron8n''\<rparr>"

definition slug_tag :: N8nTag where
  "slug_tag = \<lparr>tag_id = ''2'', tag_name = ''cron8n:daily-backup''\<rparr>"

definition tagging_results :: "http_result list" where
  "tagging_results =
     [ok (TagListResponse [managed_tag]),
      ok (TagListResponse [managed_tag]),
      ok (TagDocument slug_tag),
      ok (WorkflowDocument second_workflow),
      Responded 200 EmptyBody]"

text \<open>The value of a property of a JSON object.\<close>

definition json_property :: "json \<Rightarrow> string \<Rightarrow> json option" where
  "json_property j key = (case j of JObj ps \<Rightarrow> property ps key | _ \<Rightarrow> None)"

text \<open>
  A manifest file as the edit handlers of the repository leave it, with an
  \<^verbatim>\<open>updatedAt\<close> property, in a project directory.
\<close>

definition manifest_document :: json where
  "manifest_document =
     JObj [(''slug'', JStr ''daily-backup''), (''name'', JStr ''Daily Backup''),
           (''createdAt'', JStr ''2026-02-01T08:00:00.000Z''), (''template'', JStr ''cron-only''),
           (''cronExpression'', JStr ''0 0 * * *''), (''timezone'', JStr ''UTC''),
           (''tags'', JArr [JStr ''managed-by:cron8n'', JStr ''cron8n:daily-backup'']),
           (''updatedAt'', JStr ''2026-02-03T09:15:00.000Z'')]"

definition manifest_fs :: FileSystem where
  "manifest_fs =
     \<lparr>files = [''/home/u/proj/workflows/daily-backup.cron8n.json'' \<mapsto> Doc manifest_document],
      writable = (\<lambda>p. True), homeDir = ''/home/u'', cwd = ''/home/u/proj''\<rparr>"

definition deployed_manifest :: Manifest where
  "deployed_manifest =
     \<lparr>m_slug = ''daily-backup'', m_name = ''Daily Backup'',
      createdAt = ''2026-02-01T08:00:00.000Z'', template = ''cron-only'',
      cronExpression = ''0 0 * * *'', timezone = ''UTC'',
      m_tags = [''managed-by:cron8n'', ''cron8n:daily-backup''],
      lastDeployedWorkflowId = Some ''123'',
      lastDeployedAt = Some ''2026-02-07T12:30:05.042Z''\<rparr>"

section \<open>The contract of the cron parser\<close>

text \<open>
  Modelled from the spec: the package cron-parser, which decides whether an expression
  is valid and computes the dates, is not in the repository. The spec's contract for a
  valid expression is ``N timestamps strictly after now, in ascending order'': the
  package accepts the expression, and from the iterator it returns for the current
  date every call of \<^verbatim>\<open>next\<close> returns a date strictly after the one before, the
  current date at first, and never throws. \<open>I i t\<close> says that the iterator \<open>i\<close> stands
  at the date \<open>t\<close>. For a malformed expression the package throws; the spec's ``non-empty
  error string'' is the message of the error thrown.
\<close>

definition iterates_forward :: "'i CronParser \<Rightarrow> ('i \<Rightarrow> timestamp \<Rightarrow> bool) \<Rightarrow> bool" where
  "iterates_forward lib I =
     (\<forall>i t. I i t \<longrightarrow> (\<exists>t' i'. next_date lib i = Inr (t', i') \<and> t < t' \<and> I i' t'))"

definition valid_expression ::
  "'i CronParser \<Rightarrow> ('i \<Rightarrow> timestamp \<Rightarrow> bool) \<Rightarrow> string \<Rightarrow> string \<Rightarrow> timestamp \<Rightarrow> bool" where
  "valid_expression lib I e zone now =
     (\<exists>i. parseExpression lib e zone now = Inr i \<and> I i now \<and> iterates_forward lib I)"

definition malformed_expression :: "'i CronParser \<Rightarrow> string \<Rightarrow> string \<Rightarrow> timestamp \<Rightarrow> bool" where
  "malformed_expression lib e zone now =
     (\<exists>t. parseExpression lib e zone now = Inl t \<and> (\<forall>m. t = ThrownError m \<longrightarrow> m \<noteq> []))"

text \<open>
  A stand-in for the package that knows one expression, every minute: its iterator is
  the date it stands at, and \<^verbatim>\<open>next\<close> moves to the start of the next minute.
\<close>

definition every_minute :: "timestamp CronParser" where
  "every_minute =
     \<lparr>parseExpression = (\<lambda>e zone now.
        if e = ''* * * * *'' then Inr now
        else Inl (ThrownError (''Invalid cron expression: '' @ e))),
      next_date = (\<lambda>t. Inr ((t div 60000 + 1) * 60000, (t div 60000 + 1) * 60000))\<rparr>"

section \<open>Example data\<close>

text \<open>
  Two registry entries of one project, a reading of the clock, and a file system whose
  registry file holds a given list of entries. The properties below are evaluated on
  them.
\<close>

definition example_entry :: RegistryEntry where
  "example_entry =
     \<lparr>slug = ''daily-backup'', projectPath = ''/home/u/proj'',
      manifestPath = ''/home/u/proj/workflows/daily-backup.cron8n.json'',
      workflowId = Some ''123'', lastSyncedAt = None\<rparr>"

definition other_entry :: RegistryEntry where
  "other_entry =
     \<lparr>slug = ''hourly-sync'', projectPath = ''/home/u/proj'',
      manifestPath = ''/home/u/proj/workflows/hourly-sync.cron8n.json'',
      workflowId = None, lastSyncedAt = Some ''2026-02-07T10:00:00.000Z''\<rparr>"

definition example_now :: Date where
  "example_now =
     \<lparr>utcFullYear = 2026, utcMonth = 1, utcDate = 7, utcHours = 12, utcMinutes = 30,
      utcSeconds = 5, utcMilliseconds = 42\<rparr>"

definition registry_fs :: "RegistryEntry list \<Rightarrow> FileSystem" where
  "registry_fs es =
     \<lparr>files = [''/home/u/.cron8n/registry.json'' \<mapsto> Doc (registry_json \<lparr>workflows = es\<rparr>)],
      writable = (\<lambda>p. True), homeDir = ''/home/u'', cwd = ''/home/u/proj''\<rparr>"

section \<open>Properties of the slug generator\<close>

lemma successively_no_double_rev: "successively no_double (rev s) = successively no_double s"
proof -
  have "(\<lambda>x y. no_double y x) = no_double" by (auto simp: no_double_def fun_eq_iff)
  then show ?thesis by (simp only: successively_rev)
qed

lemma code_char_of: "n < 256 \<Longrightarrow> code (char_of n) = n"
  by (simp add: code_def)

lemma code_less: "code c < 256"
  by (simp add: code_def)

lemma hyphen_not_alnum: "\<not> is_lower_alnum (CHR ''-'')"
  by (simp add: is_lower_alnum_def is_lower_def is_digit_def code_def)

lemma lower_char_alnum: "is_alnum c \<Longrightarrow> is_lower_alnum (lower_char c)"
  by (auto simp: is_alnum_def is_lower_alnum_def lower_char_def is_upper_def is_lower_def
      is_digit_def code_char_of)

lemma lower_char_not_upper: "\<not> is_upper (lower_char c)"
  using code_less [of c]
  by (auto simp: lower_char_def is_upper_def code_char_of)

lemma in_dropWhile: "x \<in> set s \<Longrightarrow> \<not> P x \<Longrightarrow> x \<in> set (dropWhile P s)"
  by (induction s) auto

lemma in_squeeze: "x \<in> set s \<Longrightarrow> \<not> P x \<Longrightarrow> x \<in> set (squeeze P b s)"
  by (induction s arbitrary: b) auto

lemma set_squeeze: "x \<in> set (squeeze P b s) \<Longrightarrow> x = CHR ''-'' \<or> (x \<in> set s \<and> \<not> P x)"
  by (induction s arbitrary: b) (auto split: if_splits)

lemma squeeze_hyphen_shape:
  "successively no_double (squeeze is_hyphen b s) \<and>
   (b \<longrightarrow> squeeze is_hyphen b s = [] \<or> hd (squeeze is_hyphen b s) \<noteq> CHR ''-'')"
  by (induction s arbitrary: b) (auto simp: successively_Cons is_hyphen_def no_double_def)

lemma successively_dropWhile:
  "successively R s \<Longrightarrow> successively R (dropWhile P s)"
  by (metis successively_append_iff takeWhile_dropWhile_id)

lemma trim_hyphens_successively:
  assumes "successively no_double s"
  shows "successively no_double (trim_hyphens s)"
proof -
  have "successively no_double (rev (dropWhile is_hyphen s))"
    using assms by (simp only: successively_no_double_rev successively_dropWhile)
  then have "successively no_double (dropWhile is_hyphen (rev (dropWhile is_hyphen s)))"
    by (rule successively_dropWhile)
  then show ?thesis by (simp only: trim_hyphens_def successively_no_double_rev)
qed

lemma trim_hyphens_last: "trim_hyphens s \<noteq> [] \<Longrightarrow> last (trim_hyphens s) \<noteq> CHR ''-''"
  using hd_dropWhile [of is_hyphen "rev (dropWhile is_hyphen s)"]
  by (simp add: trim_hyphens_def last_rev is_hyphen_def)

lemma last_dropWhile: "dropWhile P s \<noteq> [] \<Longrightarrow> last (dropWhile P s) = last s"
  by (induction s) (auto split: if_splits)

lemma trim_hyphens_hd: 
  assumes "trim_hyphens s \<noteq> []" shows "hd (trim_hyphens s) \<noteq> CHR ''-''"
proof -
  let ?d = "dropWhile is_hyphen s"
  let ?e = "dropWhile is_hyphen (rev ?d)"
  from assms have e: "?e \<noteq> []" by (simp add: trim_hyphens_def)
  then have d: "?d \<noteq> []" by (cases "?d = []") simp_all
  have "hd (trim_hyphens s) = last ?e" using e by (simp add: trim_hyphens_def hd_rev)
  also have "\<dots> = last (rev ?d)" using e by (rule last_dropWhile)
  also have "\<dots> = hd ?d" using d by (simp add: last_rev)
  finally show ?thesis using hd_dropWhile [OF d] by (simp add: is_hyphen_def)
qed

lemma in_trim_hyphens: "x \<in> set s \<Longrightarrow> x \<noteq> CHR ''-'' \<Longrightarrow> x \<in> set (trim_hyphens s)"
  by (simp add: trim_hyphens_def in_dropWhile is_hyphen_def)

lemma set_trim_hyphens: "x \<in> set (trim_hyphens s) \<Longrightarrow> x \<in> set s"
  by (auto simp: trim_hyphens_def dest!: set_dropWhileD)

lemma in_trim: "x \<in> set s \<Longrightarrow> \<not> is_space x \<Longrightarrow> x \<in> set (trim s)"
  by (simp add: trim_def in_dropWhile)

lemma set_trim: "x \<in> set (trim s) \<Longrightarrow> x \<in> set s"
  by (auto simp: trim_def dest!: set_dropWhileD)

lemma slug_group_shape:
  "\<forall>c\<in>set s. is_lower_alnum c \<or> c = CHR ''-'' \<Longrightarrow> successively no_double s \<Longrightarrow>
   (s \<noteq> [] \<longrightarrow> last s \<noteq> CHR ''-'') \<Longrightarrow> inside \<or> (s \<noteq> [] \<and> hd s \<noteq> CHR ''-'') \<Longrightarrow>
   slug_group inside s"
proof (induction s arbitrary: inside)
  case Nil
  then show ?case by simp
next
  case (Cons c cs)
  show ?case
  proof (cases "is_lower_alnum c")
    case True
    with Cons show ?thesis by (auto simp: successively_Cons no_double_def split: if_splits)
  next
    case False
    with Cons.prems have c: "c = CHR ''-''" and ins: inside by auto
    from Cons.prems c have cs: "cs \<noteq> []" by auto
    with Cons.prems c have "hd cs \<noteq> CHR ''-''" by (auto simp: successively_Cons no_double_def)
    with Cons cs c ins False show ?thesis by (auto simp: successively_Cons)
  qed
qed

lemma createSlug_chars:
  assumes "x \<in> set (createSlug input)"
  shows "is_lower_alnum x \<or> x = CHR ''-''"
proof -
  from assms have "x \<in> set (squeeze is_hyphen False
         (squeeze is_sep False (remove_special (trim (toLowerCase input)))))"
    unfolding createSlug_def by (rule set_trim_hyphens)
  then have "x = CHR ''-'' \<or> x \<in> set (squeeze is_sep False (remove_special (trim (toLowerCase input))))"
    by (auto dest: set_squeeze)
  then have "x = CHR ''-'' \<or> (x \<in> set (remove_special (trim (toLowerCase input))) \<and> \<not> is_sep x)"
    by (auto dest: set_squeeze)
  then have "x = CHR ''-'' \<or> (x \<in> set (toLowerCase input) \<and> keeps x \<and> \<not> is_sep x)"
    by (auto simp: remove_special_def dest: set_trim)
  then have "x = CHR ''-'' \<or> (\<not> is_upper x \<and> keeps x \<and> \<not> is_sep x)"
    by (auto simp: toLowerCase_def lower_char_not_upper)
  then show ?thesis
    by (auto simp: keeps_def is_sep_def is_word_def is_alnum_def is_lower_alnum_def)
qed

lemma createSlug_keeps_alnum:
  assumes "c \<in> set input" and "is_alnum c"
  shows "lower_char c \<in> set (createSlug input)"
proof -
  let ?l = "lower_char c"
  have la: "is_lower_alnum ?l" using assms(2) by (rule lower_char_alnum)
  then have ns: "\<not> is_space ?l" and nsep: "\<not> is_sep ?l" and nh: "?l \<noteq> CHR ''-''" and k: "keeps ?l"
    by (auto simp: is_lower_alnum_def is_lower_def is_digit_def is_space_def is_sep_def keeps_def
        is_word_def is_alnum_def code_def)
  have "?l \<in> set (toLowerCase input)" using assms(1) by (simp add: toLowerCase_def)
  then have "?l \<in> set (trim (toLowerCase input))" using ns by (rule in_trim)
  then have "?l \<in> set (remove_special (trim (toLowerCase input)))"
    using k by (simp add: remove_special_def)
  then have "?l \<in> set (squeeze is_sep False (remove_special (trim (toLowerCase input))))"
    using nsep by (rule in_squeeze)
  then have "?l \<in> set (squeeze is_hyphen False
      (squeeze is_sep False (remove_special (trim (toLowerCase input)))))"
    using nh by (simp add: in_squeeze is_hyphen_def)
  then show ?thesis unfolding createSlug_def using nh by (rule in_trim_hyphens)
qed

text \<open>
  Claim C9. For every non-empty input that contains at least one alphanumeric
  character (a letter \<^verbatim>\<open>A-Z\<close>, \<^verbatim>\<open>a-z\<close> or a digit), the slug that
  \<^verbatim>\<open>createSlug\<close> makes of it passes \<^verbatim>\<open>isValidSlug\<close>.
\<close>

theorem createSlug_valid:
  assumes "x \<noteq> []" and "list_ex is_alnum x"
  shows "isValidSlug (createSlug x)"
proof -
  from assms(2) obtain c where "c \<in> set x" "is_alnum c" by (auto simp: list_ex_iff)
  then have ne: "createSlug x \<noteq> []" using createSlug_keeps_alnum by fastforce
  have "successively no_double (createSlug x)"
    unfolding createSlug_def by (intro trim_hyphens_successively) (simp add: squeeze_hyphen_shape)
  moreover have "last (createSlug x) \<noteq> CHR ''-''" "hd (createSlug x) \<noteq> CHR ''-''"
    using ne unfolding createSlug_def by (simp_all add: trim_hyphens_last trim_hyphens_hd)
  ultimately show ?thesis
    unfolding isValidSlug_def using ne createSlug_chars
    by (intro slug_group_shape) auto
qed

theorem createSlug_valid_witness:
  "''My Cron Job #1 (daily)'' \<noteq> [] \<and> list_ex is_alnum ''My Cron Job #1 (daily)'' \<and>
   isValidSlug (createSlug ''My Cron Job #1 (daily)'')"
proof -
  have h1: "''My Cron Job #1 (daily)'' \<noteq> []" by simp
  have h2: "list_ex is_alnum ''My Cron Job #1 (daily)''" by code_simp
  show ?thesis using h1 h2 createSlug_valid [OF h1 h2] by blast
qed

lemma urlAlphabet_chars: "k < 64 \<Longrightarrow> is_url_char (urlAlphabet ! k)"
proof -
  have all: "list_all is_url_char urlAlphabet" by code_simp
  have len: "length urlAlphabet = 64" by (simp add: urlAlphabet_def)
  assume "k < 64"
  with len have "urlAlphabet ! k \<in> set urlAlphabet" by simp
  with all show ?thesis by (simp add: list_all_iff)
qed

text \<open>
  Claim C5, as the code has it. Given six random bytes, \<^verbatim>\<open>createUniqueSlug(text)\<close> is
  \<^verbatim>\<open>createSlug(text)\<close>, a hyphen, and the six characters of \<^verbatim>\<open>nanoid(6)\<close>, each
  of them a letter of either case, a digit, an underscore or a hyphen.
\<close>

theorem createUniqueSlug_suffix:
  assumes "6 \<le> length bytes"
  shows "createUniqueSlug bytes text = createSlug text @ ''-'' @ nanoid bytes 6 \<and>
         length (nanoid bytes 6) = 6 \<and> list_all is_url_char (nanoid bytes 6)"
proof -
  have "list_all is_url_char (nanoid bytes 6)"
    by (simp add: nanoid_def list_all_iff urlAlphabet_chars)
  moreover have "length (nanoid bytes 6) = 6"
    using assms by (simp add: nanoid_def)
  ultimately show ?thesis by (simp add: createUniqueSlug_def)
qed

theorem createUniqueSlug_suffix_witness:
  "6 \<le> length [11, 200, 3, 64, 8, 62 :: nat] \<and>
   createUniqueSlug [11, 200, 3, 64, 8, 62] ''My Workflow'' = ''my-workflow-T-au-c'' \<and>
   list_all is_url_char ''T-au-c''"
proof -
  have h: "6 \<le> length [11, 200, 3, 64, 8, 62 :: nat]" by simp
  have e: "createSlug ''My Workflow'' @ ''-'' @ nanoid [11, 200, 3, 64, 8, 62] 6 = ''my-workflow-T-au-c''"
    by code_simp
  have n: "nanoid [11, 200, 3, 64, 8, 62] 6 = ''T-au-c''" by code_simp
  show ?thesis using h e n createUniqueSlug_suffix [OF h, of "''My Workflow''"] by simp
qed

text \<open>
  The claim as the specification states it, a suffix of lower-case letters and digits
  only, fails where a random byte selects a capital letter.
\<close>

theorem createUniqueSlug_lowercase_counterexample:
  "createUniqueSlug [11, 11, 11, 11, 11, 11] ''a'' = createSlug ''a'' @ ''-'' @ ''TTTTTT'' \<and>
   \<not> list_all is_lower_alnum ''TTTTTT''"
  by code_simp

section \<open>Properties of workflow discovery\<close>

lemma str_includes_sublist: "str_includes hay needle \<longleftrightarrow> sublist needle hay"
  by (induction hay) (auto simp: sublist_Cons_right)

lemma toLowerCase_sublist: "sublist a b \<Longrightarrow> sublist (toLowerCase a) (toLowerCase b)"
  unfolding toLowerCase_def by (rule map_mono_sublist)

text \<open>
  Claim C10. \<^verbatim>\<open>isCronNode\<close> is true exactly when the lower-cased type of the node and
  one of the three lower-cased identifiers contain each other, in either direction, as a
  substring. So it is true for every node whose type is a substring of an identifier,
  and for every node whose type is the empty string.
\<close>

theorem isCronNode_substring:
  "(isCronNode node \<longleftrightarrow>
      (\<exists>t\<in>set CRON_NODE_TYPES.
         sublist (toLowerCase t) (toLowerCase (node_type node)) \<or>
         sublist (toLowerCase (node_type node)) (toLowerCase t))) \<and>
   ((\<exists>t\<in>set CRON_NODE_TYPES. sublist (node_type node) t) \<longrightarrow> isCronNode node) \<and>
   (node_type node = [] \<longrightarrow> isCronNode node)"
proof -
  have iff: "isCronNode node \<longleftrightarrow>
      (\<exists>t\<in>set CRON_NODE_TYPES.
         sublist (toLowerCase t) (toLowerCase (node_type node)) \<or>
         sublist (toLowerCase (node_type node)) (toLowerCase t))"
    by (simp add: isCronNode_def list_ex_iff str_includes_sublist)
  have sub: "isCronNode node" if "\<exists>t\<in>set CRON_NODE_TYPES. sublist (node_type node) t"
    using that iff toLowerCase_sublist by blast
  have "''n8n-nodes-base.cron'' \<in> set CRON_NODE_TYPES" by (simp add: CRON_NODE_TYPES_def)
  then have "isCronNode node" if "node_type node = []"
    using that sub by (metis sublist_Nil_left)
  with iff sub show ?thesis by blast
qed

theorem isCronNode_substring_witness:
  "(\<exists>t\<in>set CRON_NODE_TYPES.
      sublist (node_type \<lparr>node_id = None, node_name = ''Trigger'', node_type = ''schedule''\<rparr>) t) \<and>
   isCronNode \<lparr>node_id = None, node_name = ''Trigger'', node_type = ''schedule''\<rparr> \<and>
   node_type \<lparr>node_id = None, node_name = ''Blank'', node_type = ''''\<rparr> = [] \<and>
   isCronNode \<lparr>node_id = None, node_name = ''Blank'', node_type = ''''\<rparr>"
proof -
  let ?a = "\<lparr>node_id = None, node_name = ''Trigger'', node_type = ''schedule''\<rparr>"
  let ?b = "\<lparr>node_id = None, node_name = ''Blank'', node_type = ''''\<rparr>"
  have "sublist ''schedule'' ''n8n-nodes-base.schedule''" by code_simp
  then have h: "\<exists>t\<in>set CRON_NODE_TYPES. sublist (node_type ?a) t"
    by (simp add: CRON_NODE_TYPES_def)
  have e: "node_type ?b = []" by simp
  show ?thesis
    using h e isCronNode_substring [of ?a] isCronNode_substring [of ?b] by blast
qed

section \<open>Properties of the registry\<close>

lemma findIndex_ge: "- 1 \<le> findIndex P xs"
  by (induction xs) (auto simp: Let_def)

lemma findIndex_neg: "findIndex P xs < 0 \<longleftrightarrow> \<not> list_ex P xs"
  using findIndex_ge [of P]
  by (induction xs) (auto simp: Let_def)

lemma findIndex_first:
  "0 \<le> findIndex P xs \<Longrightarrow>
   nat (findIndex P xs) < length xs \<and> P (xs ! nat (findIndex P xs)) \<and>
   (\<forall>j < nat (findIndex P xs). \<not> P (xs ! j))"
proof (induction xs)
  case Nil
  then show ?case by simp
next
  case (Cons x xs)
  show ?case
  proof (cases "P x")
    case True
    then show ?thesis by simp
  next
    case False
    with Cons.prems have nn: "0 \<le> findIndex P xs" by (auto simp: Let_def split: if_splits)
    then have eq: "findIndex P (x # xs) = findIndex P xs + 1" using False by (simp add: Let_def)
    from nn have n: "nat (findIndex P xs + 1) = Suc (nat (findIndex P xs))" by simp
    from Cons.IH [OF nn] False show ?thesis
      unfolding eq n by (auto simp: less_Suc_eq_0_disj)
  qed
qed

lemma find_first_update:
  "i < length xs \<Longrightarrow> \<forall>j<i. \<not> P (xs ! j) \<Longrightarrow> P y \<Longrightarrow> find P (xs[i := y]) = Some y"
proof (induction xs arbitrary: i)
  case Nil
  then show ?case by simp
next
  case (Cons x xs)
  show ?case
  proof (cases i)
    case 0
    with Cons.prems show ?thesis by simp
  next
    case (Suc k)
    with Cons.prems have "\<not> P x" by auto
    moreover from Cons.prems Suc have "k < length xs" "\<forall>j<k. \<not> P (xs ! j)" by auto
    ultimately show ?thesis using Cons.IH [of k] Cons.prems(3) Suc by simp
  qed
qed

lemma find_append_new: "\<not> list_ex P xs \<Longrightarrow> P y \<Longrightarrow> find P (xs @ [y]) = Some y"
  by (induction xs) auto

lemma update_first_nth:
  "i < length xs \<Longrightarrow> P (xs ! i) \<Longrightarrow> \<forall>j<i. \<not> P (xs ! j) \<Longrightarrow>
   update_first P f xs = xs[i := f (xs ! i)]"
proof (induction xs arbitrary: i)
  case Nil
  then show ?case by simp
next
  case (Cons x xs)
  show ?case
  proof (cases i)
    case 0
    with Cons.prems show ?thesis by simp
  next
    case (Suc k)
    with Cons.prems have "\<not> P x" by auto
    moreover from Cons.prems Suc have "k < length xs" "P (xs ! k)" "\<forall>j<k. \<not> P (xs ! j)" by auto
    ultimately show ?thesis using Cons.IH [of k] Suc by simp
  qed
qed

lemma find_first_index:
  "find P xs = Some x \<Longrightarrow> \<exists>i<length xs. xs ! i = x \<and> P x \<and> (\<forall>j<i. \<not> P (xs ! j))"
proof (induction xs)
  case Nil
  then show ?case by simp
next
  case (Cons a xs)
  show ?case
  proof (cases "P a")
    case True
    with Cons.prems show ?thesis by auto
  next
    case False
    with Cons.prems have "find P xs = Some x" by simp
    from Cons.IH [OF this] obtain i where i: "i < length xs" "xs ! i = x" "P x" "\<forall>j<i. \<not> P (xs ! j)"
      by blast
    with False have "Suc i < length (a # xs) \<and> (a # xs) ! Suc i = x \<and> P x \<and>
        (\<forall>j<Suc i. \<not> P ((a # xs) ! j))"
      by (auto simp: less_Suc_eq_0_disj)
    then show ?thesis by blast
  qed
qed

lemma find_None_list_ex: "find P xs = None \<longleftrightarrow> \<not> list_ex P xs"
  by (induction xs) auto

lemma entry_roundtrip: "RegistryEntrySchema_parse (entry_json e) = Some e"
  by (cases e; cases "workflowId e"; cases "lastSyncedAt e")
     (simp_all add: entry_json_def property_def)

lemma entries_roundtrip: "those (map RegistryEntrySchema_parse (map entry_json es)) = Some es"
  by (induction es) (simp_all add: entry_roundtrip)

lemma registry_roundtrip: "RegistrySchema_parse (registry_json r) = Some r"
  using entries_roundtrip [of "workflows r"]
  by (cases r) (simp add: registry_json_def property_def)

lemma REGISTRY_FILE_files [simp]: "REGISTRY_FILE (fs\<lparr>files := f\<rparr>) = REGISTRY_FILE fs"
  by (simp add: REGISTRY_FILE_def REGISTRY_DIR_def)

lemma saveRegistry_ok:
  "writable fs (REGISTRY_FILE fs) \<Longrightarrow>
   saveRegistry fs r = Inr (fs\<lparr>files := (files fs)(REGISTRY_FILE fs \<mapsto> Doc (registry_json r))\<rparr>)"
  by (simp add: saveRegistry_def writeJson_def)

lemma loadRegistry_saved:
  "loadRegistry (fs\<lparr>files := (files fs)(REGISTRY_FILE fs \<mapsto> Doc (registry_json r))\<rparr>) = r"
  by (simp add: loadRegistry_def exists_file_def readJson_def registry_roundtrip)

lemma writable_saved [simp]:
  "writable (fs\<lparr>files := f\<rparr>) = writable fs"
  by simp

lemma unique_update:
  "unique_identities es \<Longrightarrow> i < length es \<Longrightarrow> slug y = slug (es ! i) \<Longrightarrow>
   projectPath y = projectPath (es ! i) \<Longrightarrow> unique_identities (es[i := y])"
proof -
  assume u: "unique_identities es" and i: "i < length es"
    and s: "slug y = slug (es ! i)" and p: "projectPath y = projectPath (es ! i)"
  have "map (\<lambda>e. (slug e, projectPath e)) (es[i := y]) = (map (\<lambda>e. (slug e, projectPath e)) es)[i := (slug y, projectPath y)]"
    by (simp add: map_update)
  also have "\<dots> = map (\<lambda>e. (slug e, projectPath e)) es"
    using i s p by (simp add: list_update_same_conv)
  finally show ?thesis using u by (simp add: unique_identities_def)
qed

lemma unique_append:
  "unique_identities es \<Longrightarrow> \<not> list_ex (same_identity (slug y) (projectPath y)) es \<Longrightarrow>
   unique_identities (es @ [y])"
  by (auto simp: unique_identities_def list_ex_iff same_identity_def)

lemma unique_filter_find:
  "unique_identities es \<Longrightarrow> find (same_identity s p) es = Some x \<Longrightarrow>
   filter (same_identity s p) es = [x]"
proof (induction es)
  case Nil
  then show ?case by simp
next
  case (Cons a es)
  show ?case
  proof (cases "same_identity s p a")
    case True
    with Cons.prems have x: "x = a" by simp
    from Cons.prems(1) True have "\<forall>e\<in>set es. \<not> same_identity s p e"
      by (auto simp: unique_identities_def same_identity_def image_iff)
    then have "filter (same_identity s p) es = []" by (simp add: filter_empty_conv)
    with True x show ?thesis by simp
  next
    case False
    with Cons show ?thesis by (simp add: unique_identities_def)
  qed
qed

lemma unique_filter_length:
  "unique_identities es \<Longrightarrow> list_ex (same_identity s p) es \<Longrightarrow>
   length (filter (\<lambda>w. \<not> same_identity s p w) es) = length es - 1"
proof -
  assume u: "unique_identities es" and ex: "list_ex (same_identity s p) es"
  then obtain x where "find (same_identity s p) es = Some x"
    using find_None_list_ex [of "same_identity s p" es] by (cases "find (same_identity s p) es") auto
  with u have "length (filter (same_identity s p) es) = 1" by (simp add: unique_filter_find)
  moreover have "length (filter (same_identity s p) es) + length (filter (\<lambda>w. \<not> same_identity s p w) es) = length es"
    by (rule sum_length_filter_compl)
  ultimately show ?thesis by simp
qed

lemma getISOTimestamp_nonempty: "getISOTimestamp now \<noteq> []"
  by (simp add: getISOTimestamp_def toISOString_def)


lemma upsert_result:
  assumes w: "writable fs (REGISTRY_FILE fs)"
  shows "\<exists>fs'. upsertRegistryEntry fs now entry = Inr fs' \<and>
           writable fs' (REGISTRY_FILE fs') \<and>
           (if list_ex (same_identity (slug entry) (projectPath entry)) (getAllEntries fs)
            then \<exists>i<length (getAllEntries fs).
                   same_identity (slug entry) (projectPath entry) (getAllEntries fs ! i) \<and>
                   (\<forall>j<i. \<not> same_identity (slug entry) (projectPath entry) (getAllEntries fs ! j)) \<and>
                   getAllEntries fs' =
                     (getAllEntries fs)[i := entry\<lparr>lastSyncedAt := Some (getISOTimestamp now)\<rparr>]
            else getAllEntries fs' =
                   getAllEntries fs @ [entry\<lparr>lastSyncedAt := Some (getISOTimestamp now)\<rparr>])"
proof -
  let ?P = "same_identity (slug entry) (projectPath entry)"
  let ?es = "workflows (loadRegistry fs)"
  let ?new = "entry\<lparr>lastSyncedAt := Some (getISOTimestamp now)\<rparr>"
  show ?thesis
  proof (cases "list_ex ?P ?es")
    case True
    then have nn: "0 \<le> findIndex ?P ?es" using findIndex_neg [of ?P ?es] by simp
    from findIndex_first [OF nn] show ?thesis
      using True nn w
      by (auto simp: upsertRegistryEntry_def Let_def saveRegistry_ok getAllEntries_def
          loadRegistry_saved)
  next
    case False
    then have "\<not> 0 \<le> findIndex ?P ?es" using findIndex_neg [of ?P ?es] by simp
    then show ?thesis
      using False w
      by (simp add: upsertRegistryEntry_def Let_def saveRegistry_ok getAllEntries_def
          loadRegistry_saved)
  qed
qed

lemma upsert_step:
  assumes w: "writable fs (REGISTRY_FILE fs)"
  shows "\<exists>fs'. upsertRegistryEntry fs now entry = Inr fs' \<and>
           writable fs' (REGISTRY_FILE fs') \<and>
           (if list_ex (same_identity (slug entry) (projectPath entry)) (getAllEntries fs)
            then \<exists>i<length (getAllEntries fs).
                   same_identity (slug entry) (projectPath entry) (getAllEntries fs ! i) \<and>
                   (\<forall>j<i. \<not> same_identity (slug entry) (projectPath entry) (getAllEntries fs ! j)) \<and>
                   getAllEntries fs' =
                     (getAllEntries fs)[i := entry\<lparr>lastSyncedAt := Some (getISOTimestamp now)\<rparr>]
            else getAllEntries fs' =
                   getAllEntries fs @ [entry\<lparr>lastSyncedAt := Some (getISOTimestamp now)\<rparr>]) \<and>
           getEntry fs' (slug entry) (projectPath entry) =
             Some (entry\<lparr>lastSyncedAt := Some (getISOTimestamp now)\<rparr>) \<and>
           (unique_identities (getAllEntries fs) \<longrightarrow> unique_identities (getAllEntries fs'))"
proof -
  let ?P = "same_identity (slug entry) (projectPath entry)"
  let ?new = "entry\<lparr>lastSyncedAt := Some (getISOTimestamp now)\<rparr>"
  have new: "?P ?new" by (simp add: same_identity_def)
  from upsert_result [OF w, of now entry] obtain fs' where
    r: "upsertRegistryEntry fs now entry = Inr fs'" and w': "writable fs' (REGISTRY_FILE fs')"
    and shape: "if list_ex ?P (getAllEntries fs)
            then \<exists>i<length (getAllEntries fs). ?P (getAllEntries fs ! i) \<and>
                   (\<forall>j<i. \<not> ?P (getAllEntries fs ! j)) \<and>
                   getAllEntries fs' = (getAllEntries fs)[i := ?new]
            else getAllEntries fs' = getAllEntries fs @ [?new]"
    by blast
  have "getEntry fs' (slug entry) (projectPath entry) = Some ?new \<and>
        (unique_identities (getAllEntries fs) \<longrightarrow> unique_identities (getAllEntries fs'))"
  proof (cases "list_ex ?P (getAllEntries fs)")
    case True
    with shape obtain i where i: "i < length (getAllEntries fs)" "?P (getAllEntries fs ! i)"
      "\<forall>j<i. \<not> ?P (getAllEntries fs ! j)" "getAllEntries fs' = (getAllEntries fs)[i := ?new]"
      by auto
    have "find ?P (getAllEntries fs') = Some ?new"
      unfolding i(4) using i(1) i(3) new by (rule find_first_update)
    moreover have "unique_identities (getAllEntries fs')" if "unique_identities (getAllEntries fs)"
      unfolding i(4) using that i(1) i(2) by (intro unique_update) (simp_all add: same_identity_def)
    ultimately show ?thesis by (simp add: getEntry_def getAllEntries_def)
  next
    case False
    with shape have e: "getAllEntries fs' = getAllEntries fs @ [?new]" by simp
    have "find ?P (getAllEntries fs') = Some ?new"
      unfolding e using False new by (rule find_append_new)
    moreover have "unique_identities (getAllEntries fs')" if "unique_identities (getAllEntries fs)"
      unfolding e using that False by (intro unique_append) simp_all
    ultimately show ?thesis by (simp add: getEntry_def getAllEntries_def)
  qed
  with r w' shape show ?thesis by blast
qed

lemma getEntry_list_ex:
  "getEntry fs s p = Some x \<Longrightarrow> list_ex (same_identity s p) (getAllEntries fs)"
  using find_None_list_ex [of "same_identity s p" "getAllEntries fs"]
  by (auto simp: getEntry_def getAllEntries_def)

text \<open>
  Claim C6. Where the registry file can be written, \<^verbatim>\<open>upsertRegistryEntry\<close> returns
  normally; the entry it stores is the argument with \<^verbatim>\<open>lastSyncedAt\<close> set to the
  current time, a non-empty text. If an entry has the argument's slug and project path,
  the first such entry is replaced in place, otherwise the new entry is appended, and
  \<^verbatim>\<open>getEntry\<close> for that identity returns the new entry. A registry with at most one
  entry for each identity stays so. A second upsert with the same identity keeps the
  number of entries, \<^verbatim>\<open>getEntry\<close> then returns the second call's entry, and in a
  registry that had at most one entry for each identity it is the only entry of that
  identity.
\<close>

theorem upsertRegistryEntry_identity:
  assumes w: "writable fs (REGISTRY_FILE fs)"
  shows "\<exists>fs'. upsertRegistryEntry fs now entry = Inr fs' \<and>
           getISOTimestamp now \<noteq> [] \<and>
           (if list_ex (same_identity (slug entry) (projectPath entry)) (getAllEntries fs)
            then \<exists>i<length (getAllEntries fs).
                   same_identity (slug entry) (projectPath entry) (getAllEntries fs ! i) \<and>
                   (\<forall>j<i. \<not> same_identity (slug entry) (projectPath entry) (getAllEntries fs ! j)) \<and>
                   getAllEntries fs' =
                     (getAllEntries fs)[i := entry\<lparr>lastSyncedAt := Some (getISOTimestamp now)\<rparr>]
            else getAllEntries fs' =
                   getAllEntries fs @ [entry\<lparr>lastSyncedAt := Some (getISOTimestamp now)\<rparr>]) \<and>
           getEntry fs' (slug entry) (projectPath entry) =
             Some (entry\<lparr>lastSyncedAt := Some (getISOTimestamp now)\<rparr>) \<and>
           (unique_identities (getAllEntries fs) \<longrightarrow> unique_identities (getAllEntries fs')) \<and>
           (\<forall>now2 entry2.
              slug entry2 = slug entry \<and> projectPath entry2 = projectPath entry \<longrightarrow>
              (\<exists>fs''. upsertRegistryEntry fs' now2 entry2 = Inr fs'' \<and>
                 length (getAllEntries fs'') = length (getAllEntries fs') \<and>
                 getEntry fs'' (slug entry) (projectPath entry) =
                   Some (entry2\<lparr>lastSyncedAt := Some (getISOTimestamp now2)\<rparr>) \<and>
                 (unique_identities (getAllEntries fs) \<longrightarrow>
                    filter (same_identity (slug entry) (projectPath entry)) (getAllEntries fs'') =
                      [entry2\<lparr>lastSyncedAt := Some (getISOTimestamp now2)\<rparr>])))"
proof -
  let ?P = "same_identity (slug entry) (projectPath entry)"
  from upsert_step [OF w, of now entry] obtain fs' where
    r: "upsertRegistryEntry fs now entry = Inr fs'" and w': "writable fs' (REGISTRY_FILE fs')"
    and shape: "if list_ex ?P (getAllEntries fs)
            then \<exists>i<length (getAllEntries fs). ?P (getAllEntries fs ! i) \<and>
                   (\<forall>j<i. \<not> ?P (getAllEntries fs ! j)) \<and>
                   getAllEntries fs' =
                     (getAllEntries fs)[i := entry\<lparr>lastSyncedAt := Some (getISOTimestamp now)\<rparr>]
            else getAllEntries fs' =
                   getAllEntries fs @ [entry\<lparr>lastSyncedAt := Some (getISOTimestamp now)\<rparr>]"
    and g: "getEntry fs' (slug entry) (projectPath entry) =
             Some (entry\<lparr>lastSyncedAt := Some (getISOTimestamp now)\<rparr>)"
    and u: "unique_identities (getAllEntries fs) \<longrightarrow> unique_identities (getAllEntries fs')"
    by blast
  have ex: "list_ex ?P (getAllEntries fs')" using g by (rule getEntry_list_ex)
  have second: "\<exists>fs''. upsertRegistryEntry fs' now2 entry2 = Inr fs'' \<and>
                 length (getAllEntries fs'') = length (getAllEntries fs') \<and>
                 getEntry fs'' (slug entry) (projectPath entry) =
                   Some (entry2\<lparr>lastSyncedAt := Some (getISOTimestamp now2)\<rparr>) \<and>
                 (unique_identities (getAllEntries fs) \<longrightarrow>
                    filter ?P (getAllEntries fs'') =
                      [entry2\<lparr>lastSyncedAt := Some (getISOTimestamp now2)\<rparr>])"
    if same: "slug entry2 = slug entry \<and> projectPath entry2 = projectPath entry"
    for now2 entry2
  proof -
    from upsert_step [OF w', of now2 entry2] same ex obtain fs'' where
      r2: "upsertRegistryEntry fs' now2 entry2 = Inr fs''"
      and shape2: "\<exists>i<length (getAllEntries fs').
                   getAllEntries fs'' =
                     (getAllEntries fs')[i := entry2\<lparr>lastSyncedAt := Some (getISOTimestamp now2)\<rparr>]"
      and g2: "getEntry fs'' (slug entry) (projectPath entry) =
             Some (entry2\<lparr>lastSyncedAt := Some (getISOTimestamp now2)\<rparr>)"
      and u2: "unique_identities (getAllEntries fs') \<longrightarrow> unique_identities (getAllEntries fs'')"
      by auto
    from shape2 have len: "length (getAllEntries fs'') = length (getAllEntries fs')" by auto
    have "filter ?P (getAllEntries fs'') = [entry2\<lparr>lastSyncedAt := Some (getISOTimestamp now2)\<rparr>]"
      if "unique_identities (getAllEntries fs)"
      using that u u2 g2 by (intro unique_filter_find) (simp_all add: getEntry_def getAllEntries_def)
    with r2 len g2 show ?thesis by blast
  qed
  from r shape g u second getISOTimestamp_nonempty [of now] show ?thesis by blast
qed

lemma example_writable: "writable (registry_fs es) (REGISTRY_FILE (registry_fs es))"
  by (simp add: registry_fs_def)

lemma example_entries: "getAllEntries (registry_fs es) = es"
  by (simp add: getAllEntries_def registry_fs_def loadRegistry_def exists_file_def readJson_def
      REGISTRY_FILE_def REGISTRY_DIR_def registry_roundtrip)

lemma example_load: "loadRegistry (registry_fs es) = \<lparr>workflows = es\<rparr>"
  by (simp add: registry_fs_def loadRegistry_def exists_file_def readJson_def
      REGISTRY_FILE_def REGISTRY_DIR_def registry_roundtrip)

lemma registry_fs_saved:
  "(registry_fs es)\<lparr>files := (files (registry_fs es))
      (REGISTRY_FILE (registry_fs es) \<mapsto> Doc (registry_json \<lparr>workflows = es'\<rparr>))\<rparr> = registry_fs es'"
  by (simp add: registry_fs_def REGISTRY_FILE_def REGISTRY_DIR_def)

theorem upsertRegistryEntry_identity_witness:
  "writable (registry_fs [other_entry, example_entry])
     (REGISTRY_FILE (registry_fs [other_entry, example_entry])) \<and>
   unique_identities (getAllEntries (registry_fs [other_entry, example_entry])) \<and>
   list_ex (same_identity ''daily-backup'' ''/home/u/proj'')
     (getAllEntries (registry_fs [other_entry, example_entry])) \<and>
   (\<exists>fs' fs''.
      upsertRegistryEntry (registry_fs [other_entry, example_entry]) example_now
        (example_entry\<lparr>workflowId := Some ''456''\<rparr>) = Inr fs' \<and>
      unique_identities (getAllEntries fs') \<and>
      getEntry fs' ''daily-backup'' ''/home/u/proj'' =
        Some (example_entry\<lparr>workflowId := Some ''456'',
                            lastSyncedAt := Some ''2026-02-07T12:30:05.042Z''\<rparr>) \<and>
      upsertRegistryEntry fs' example_now (example_entry\<lparr>workflowId := Some ''789''\<rparr>) = Inr fs'' \<and>
      filter (same_identity ''daily-backup'' ''/home/u/proj'') (getAllEntries fs'') =
        [example_entry\<lparr>workflowId := Some ''789'',
                       lastSyncedAt := Some ''2026-02-07T12:30:05.042Z''\<rparr>])"
proof -
  let ?fs = "registry_fs [other_entry, example_entry]"
  let ?e = "example_entry\<lparr>workflowId := Some ''456''\<rparr>"
  let ?e2 = "example_entry\<lparr>workflowId := Some ''789''\<rparr>"
  have w: "writable ?fs (REGISTRY_FILE ?fs)" by (rule example_writable)
  have u: "unique_identities (getAllEntries ?fs)"
    by (simp add: example_entries unique_identities_def other_entry_def example_entry_def)
  have ex: "list_ex (same_identity ''daily-backup'' ''/home/u/proj'') (getAllEntries ?fs)"
    by (simp add: example_entries same_identity_def other_entry_def example_entry_def)
  have s: "slug ?e = ''daily-backup''" "projectPath ?e = ''/home/u/proj''"
    "slug ?e2 = slug ?e \<and> projectPath ?e2 = projectPath ?e"
    by (simp_all add: example_entry_def)
  have t: "getISOTimestamp example_now = ''2026-02-07T12:30:05.042Z''" by code_simp
  from upsertRegistryEntry_identity [OF w, of example_now ?e] obtain fs' where
    r: "upsertRegistryEntry ?fs example_now ?e = Inr fs'"
    and g: "getEntry fs' (slug ?e) (projectPath ?e) = Some (?e\<lparr>lastSyncedAt := Some (getISOTimestamp example_now)\<rparr>)"
    and u': "unique_identities (getAllEntries ?fs) \<longrightarrow> unique_identities (getAllEntries fs')"
    and second: "\<forall>now2 entry2.
              slug entry2 = slug ?e \<and> projectPath entry2 = projectPath ?e \<longrightarrow>
              (\<exists>fs''. upsertRegistryEntry fs' now2 entry2 = Inr fs'' \<and>
                 length (getAllEntries fs'') = length (getAllEntries fs') \<and>
                 getEntry fs'' (slug ?e) (projectPath ?e) =
                   Some (entry2\<lparr>lastSyncedAt := Some (getISOTimestamp now2)\<rparr>) \<and>
                 (unique_identities (getAllEntries ?fs) \<longrightarrow>
                    filter (same_identity (slug ?e) (projectPath ?e)) (getAllEntries fs'') =
                      [entry2\<lparr>lastSyncedAt := Some (getISOTimestamp now2)\<rparr>]))"
    by blast
  from second s(3) u obtain fs'' where
    r2: "upsertRegistryEntry fs' example_now ?e2 = Inr fs''"
    and f2: "filter (same_identity (slug ?e) (projectPath ?e)) (getAllEntries fs'') =
                      [?e2\<lparr>lastSyncedAt := Some (getISOTimestamp example_now)\<rparr>]"
    by blast
  from r g u u' r2 f2 have
    "upsertRegistryEntry ?fs example_now ?e = Inr fs' \<and>
      unique_identities (getAllEntries fs') \<and>
      getEntry fs' ''daily-backup'' ''/home/u/proj'' =
        Some (example_entry\<lparr>workflowId := Some ''456'',
                            lastSyncedAt := Some ''2026-02-07T12:30:05.042Z''\<rparr>) \<and>
      upsertRegistryEntry fs' example_now ?e2 = Inr fs'' \<and>
      filter (same_identity ''daily-backup'' ''/home/u/proj'') (getAllEntries fs'') =
        [example_entry\<lparr>workflowId := Some ''789'',
                       lastSyncedAt := Some ''2026-02-07T12:30:05.042Z''\<rparr>]"
    unfolding s(1) s(2) t by simp
  with w u ex show ?thesis by blast
qed

text \<open>
  Claim C7. With no entry of the given identity, \<^verbatim>\<open>removeRegistryEntry\<close> returns
  false and leaves the file system, and so the registry's entries and their count, as
  they were. With an entry of that identity, and the registry file writable, it returns
  true and the registry afterwards holds the entries of the other identities: fewer
  entries than before, and exactly one fewer in a registry with at most one entry for
  each identity, the invariant of the registry that every operation preserves.
\<close>

theorem removeRegistryEntry_count:
  "(\<not> list_ex (same_identity s p) (getAllEntries fs) \<longrightarrow>
      removeRegistryEntry fs s p = Inr (False, fs)) \<and>
   (list_ex (same_identity s p) (getAllEntries fs) \<and> writable fs (REGISTRY_FILE fs) \<longrightarrow>
      (\<exists>fs'. removeRegistryEntry fs s p = Inr (True, fs') \<and>
         getAllEntries fs' = filter (\<lambda>w. \<not> same_identity s p w) (getAllEntries fs) \<and>
         length (getAllEntries fs') + length (filter (same_identity s p) (getAllEntries fs)) =
           length (getAllEntries fs) \<and>
         length (getAllEntries fs') < length (getAllEntries fs) \<and>
         (unique_identities (getAllEntries fs) \<longrightarrow>
            length (getAllEntries fs') = length (getAllEntries fs) - 1)))"
proof -
  let ?P = "same_identity s p"
  let ?es = "getAllEntries fs"
  have none: "removeRegistryEntry fs s p = Inr (False, fs)" if "\<not> list_ex ?P ?es"
  proof -
    from that have "filter (\<lambda>w. \<not> ?P w) ?es = ?es" by (simp add: list_ex_iff)
    then show ?thesis by (simp add: removeRegistryEntry_def Let_def getAllEntries_def)
  qed
  have some: "\<exists>fs'. removeRegistryEntry fs s p = Inr (True, fs') \<and>
         getAllEntries fs' = filter (\<lambda>w. \<not> ?P w) ?es \<and>
         length (getAllEntries fs') + length (filter ?P ?es) = length ?es \<and>
         length (getAllEntries fs') < length ?es \<and>
         (unique_identities ?es \<longrightarrow> length (getAllEntries fs') = length ?es - 1)"
    if ex: "list_ex ?P ?es" and w: "writable fs (REGISTRY_FILE fs)"
  proof -
    have sum: "length (filter ?P ?es) + length (filter (\<lambda>w. \<not> ?P w) ?es) = length ?es"
      by (rule sum_length_filter_compl)
    from ex have "filter ?P ?es \<noteq> []" by (simp add: filter_empty_conv list_ex_iff)
    then have pos: "0 < length (filter ?P ?es)" by simp
    with sum have less: "length (filter (\<lambda>w. \<not> ?P w) ?es) < length ?es" by linarith
    let ?fs' = "fs\<lparr>files := (files fs)(REGISTRY_FILE fs \<mapsto>
        Doc (registry_json ((loadRegistry fs)\<lparr>workflows := filter (\<lambda>w. \<not> ?P w) ?es\<rparr>)))\<rparr>"
    have r: "removeRegistryEntry fs s p = Inr (True, ?fs')"
      using less w by (simp add: removeRegistryEntry_def Let_def getAllEntries_def saveRegistry_ok)
    have g: "getAllEntries ?fs' = filter (\<lambda>w. \<not> ?P w) ?es"
      by (simp add: getAllEntries_def loadRegistry_saved)
    have "length (getAllEntries ?fs') = length ?es - 1" if "unique_identities ?es"
      unfolding g using that ex by (rule unique_filter_length)
    with r g sum less show ?thesis by (intro exI [of _ ?fs']) simp
  qed
  from none some show ?thesis by blast
qed

theorem removeRegistryEntry_count_witness:
  "\<not> list_ex (same_identity ''nonexistent'' ''/path'') (getAllEntries (registry_fs [other_entry, example_entry])) \<and>
   removeRegistryEntry (registry_fs [other_entry, example_entry]) ''nonexistent'' ''/path'' =
     Inr (False, registry_fs [other_entry, example_entry]) \<and>
   list_ex (same_identity ''daily-backup'' ''/home/u/proj'')
     (getAllEntries (registry_fs [other_entry, example_entry])) \<and>
   writable (registry_fs [other_entry, example_entry])
     (REGISTRY_FILE (registry_fs [other_entry, example_entry])) \<and>
   unique_identities (getAllEntries (registry_fs [other_entry, example_entry])) \<and>
   (\<exists>fs'. removeRegistryEntry (registry_fs [other_entry, example_entry]) ''daily-backup'' ''/home/u/proj'' =
            Inr (True, fs') \<and>
          length (getAllEntries fs') = length (getAllEntries (registry_fs [other_entry, example_entry])) - 1)"
proof -
  let ?fs = "registry_fs [other_entry, example_entry]"
  have n: "\<not> list_ex (same_identity ''nonexistent'' ''/path'') (getAllEntries ?fs)"
    by (simp add: example_entries same_identity_def other_entry_def example_entry_def)
  have ex: "list_ex (same_identity ''daily-backup'' ''/home/u/proj'') (getAllEntries ?fs)"
    by (simp add: example_entries same_identity_def other_entry_def example_entry_def)
  have w: "writable ?fs (REGISTRY_FILE ?fs)" by (rule example_writable)
  have u: "unique_identities (getAllEntries ?fs)"
    by (simp add: example_entries unique_identities_def other_entry_def example_entry_def)
  from n removeRegistryEntry_count [of "''nonexistent''" "''/path''" ?fs]
  have a: "removeRegistryEntry ?fs ''nonexistent'' ''/path'' = Inr (False, ?fs)" by blast
  from ex w u removeRegistryEntry_count [of "''daily-backup''" "''/home/u/proj''" ?fs]
  have b: "\<exists>fs'. removeRegistryEntry ?fs ''daily-backup'' ''/home/u/proj'' = Inr (True, fs') \<and>
          length (getAllEntries fs') = length (getAllEntries ?fs) - 1" by blast
  from n a ex w u b show ?thesis by blast
qed

text \<open>
  Claim C8. With no entry of the given identity, \<^verbatim>\<open>updateWorkflowId\<close> returns
  normally and leaves the file system as it was: nothing is created, nothing is
  written. With such an entry, and the registry file writable, the registry afterwards
  is the registry before with the first entry of that identity changed in its
  \<^verbatim>\<open>workflowId\<close> and \<^verbatim>\<open>lastSyncedAt\<close> only; every other entry, every other
  field and every other file are as before.
\<close>

theorem updateWorkflowId_frame:
  "(\<not> list_ex (same_identity s p) (getAllEntries fs) \<longrightarrow>
      updateWorkflowId fs now s p wid = Inr fs) \<and>
   (list_ex (same_identity s p) (getAllEntries fs) \<and> writable fs (REGISTRY_FILE fs) \<longrightarrow>
      (\<exists>fs' i. updateWorkflowId fs now s p wid = Inr fs' \<and>
         i < length (getAllEntries fs) \<and>
         same_identity s p (getAllEntries fs ! i) \<and>
         (\<forall>j<i. \<not> same_identity s p (getAllEntries fs ! j)) \<and>
         getAllEntries fs' =
           (getAllEntries fs)[i := (getAllEntries fs ! i)
              \<lparr>workflowId := Some wid, lastSyncedAt := Some (getISOTimestamp now)\<rparr>] \<and>
         (\<forall>path. path \<noteq> REGISTRY_FILE fs \<longrightarrow> files fs' path = files fs path)))"
proof -
  let ?P = "same_identity s p"
  let ?es = "getAllEntries fs"
  let ?f = "\<lambda>e. e\<lparr>workflowId := Some wid, lastSyncedAt := Some (getISOTimestamp now)\<rparr>"
  have none: "updateWorkflowId fs now s p wid = Inr fs" if "\<not> list_ex ?P ?es"
    using that find_None_list_ex [of ?P ?es]
    by (simp add: updateWorkflowId_def Let_def getAllEntries_def)
  have some: "\<exists>fs' i. updateWorkflowId fs now s p wid = Inr fs' \<and>
         i < length ?es \<and> ?P (?es ! i) \<and> (\<forall>j<i. \<not> ?P (?es ! j)) \<and>
         getAllEntries fs' = ?es[i := ?f (?es ! i)] \<and>
         (\<forall>path. path \<noteq> REGISTRY_FILE fs \<longrightarrow> files fs' path = files fs path)"
    if ex: "list_ex ?P ?es" and w: "writable fs (REGISTRY_FILE fs)"
  proof -
    from ex obtain x where x: "find ?P ?es = Some x"
      using find_None_list_ex [of ?P ?es] by (cases "find ?P ?es") auto
    from find_first_index [OF x] obtain i where
      i: "i < length ?es" "?es ! i = x" "?P x" "\<forall>j<i. \<not> ?P (?es ! j)" by blast
    then have upd: "update_first ?P ?f ?es = ?es[i := ?f (?es ! i)]"
      by (intro update_first_nth) simp_all
    let ?fs' = "fs\<lparr>files := (files fs)(REGISTRY_FILE fs \<mapsto>
        Doc (registry_json ((loadRegistry fs)\<lparr>workflows := update_first ?P ?f ?es\<rparr>)))\<rparr>"
    have r: "updateWorkflowId fs now s p wid = Inr ?fs'"
      using x w by (simp add: updateWorkflowId_def Let_def getAllEntries_def saveRegistry_ok)
    have g: "getAllEntries ?fs' = ?es[i := ?f (?es ! i)]"
      using upd by (simp add: getAllEntries_def loadRegistry_saved)
    have fr: "\<forall>path. path \<noteq> REGISTRY_FILE fs \<longrightarrow> files ?fs' path = files fs path" by simp
    from r i g fr show ?thesis by (intro exI [of _ ?fs'] exI [of _ i]) simp
  qed
  from none some show ?thesis by blast
qed

theorem updateWorkflowId_frame_witness:
  "\<not> list_ex (same_identity ''nonexistent'' ''/path'') (getAllEntries (registry_fs [other_entry, example_entry])) \<and>
   updateWorkflowId (registry_fs [other_entry, example_entry]) example_now ''nonexistent'' ''/path'' ''9'' =
     Inr (registry_fs [other_entry, example_entry]) \<and>
   list_ex (same_identity ''daily-backup'' ''/home/u/proj'')
     (getAllEntries (registry_fs [other_entry, example_entry])) \<and>
   writable (registry_fs [other_entry, example_entry])
     (REGISTRY_FILE (registry_fs [other_entry, example_entry])) \<and>
   (\<exists>fs'. updateWorkflowId (registry_fs [other_entry, example_entry]) example_now
            ''daily-backup'' ''/home/u/proj'' ''9'' = Inr fs' \<and>
          length (getAllEntries fs') = 2)"
proof -
  let ?fs = "registry_fs [other_entry, example_entry]"
  have n: "\<not> list_ex (same_identity ''nonexistent'' ''/path'') (getAllEntries ?fs)"
    by (simp add: example_entries same_identity_def other_entry_def example_entry_def)
  have ex: "list_ex (same_identity ''daily-backup'' ''/home/u/proj'') (getAllEntries ?fs)"
    by (simp add: example_entries same_identity_def other_entry_def example_entry_def)
  have w: "writable ?fs (REGISTRY_FILE ?fs)" by (rule example_writable)
  from n updateWorkflowId_frame [of "''nonexistent''" "''/path''" ?fs example_now "''9''"]
  have a: "updateWorkflowId ?fs example_now ''nonexistent'' ''/path'' ''9'' = Inr ?fs" by blast
  from ex w updateWorkflowId_frame [of "''daily-backup''" "''/home/u/proj''" ?fs example_now "''9''"]
  obtain fs' i where "updateWorkflowId ?fs example_now ''daily-backup'' ''/home/u/proj'' ''9'' = Inr fs'"
    "getAllEntries fs' = (getAllEntries ?fs)[i := (getAllEntries ?fs ! i)
              \<lparr>workflowId := Some ''9'', lastSyncedAt := Some (getISOTimestamp example_now)\<rparr>]"
    by blast
  then have "updateWorkflowId ?fs example_now ''daily-backup'' ''/home/u/proj'' ''9'' = Inr fs' \<and>
          length (getAllEntries fs') = length (getAllEntries ?fs)"
    by (simp only: length_list_update)
  then have b: "\<exists>fs'. updateWorkflowId ?fs example_now ''daily-backup'' ''/home/u/proj'' ''9'' = Inr fs' \<and>
          length (getAllEntries fs') = 2"
    by (auto simp: example_entries)
  from n a ex w b show ?thesis by blast
qed

section \<open>Properties of the API client\<close>

lemma request_answers:
  "answers srv (server_state net) \<lparr>req_method = m, req_path = p, req_body = b\<rparr> doc s' \<Longrightarrow>
   request srv m p b net =
     (Inr doc, \<lparr>server_state = s', sent = sent net @ [\<lparr>req_method = m, req_path = p, req_body = b\<rparr>]\<rparr>)"
  by (auto simp: answers_def request_def Let_def split: prod.splits)

lemma request_sent:
  "request srv m p b net = (r, net') \<Longrightarrow>
   sent net' = sent net @ [\<lparr>req_method = m, req_path = p, req_body = b\<rparr>]"
  by (auto simp: request_def Let_def split: prod.splits)

lemma loop_limit:
  assumes "truthy_number (opt_limit options)"
  shows "\<exists>r net'. listWorkflows_loop srv options acc cursor net = Some (r, net') \<and>
           sent net' = sent net @ [list_request options cursor]"
proof -
  obtain r net' where q: "request srv GET (WorkflowsPath (list_params options cursor)) None net = (r, net')"
    by (cases "request srv GET (WorkflowsPath (list_params options cursor)) None net")
  from request_sent [OF q] have s: "sent net' = sent net @ [list_request options cursor]"
    by (simp add: list_request_def)
  show ?thesis
    using q s assms
    by (subst listWorkflows_loop.simps)
       (auto split: sum.splits option.splits prod.splits)
qed

lemma loop_pages:
  assumes "pages_served srv options cursor s ps s'" and "\<not> truthy_number (opt_limit options)"
  shows "server_state net = s \<Longrightarrow>
         listWorkflows_loop srv options acc cursor net =
           Some (Inr (acc @ concat (map fst ps)),
                 \<lparr>server_state = s',
                  sent = sent net @ map (list_request options) (cursor # map snd (butlast ps))\<rparr>)"
  using assms
proof (induction arbitrary: net acc rule: pages_served.induct)
  case (last_page s cursor d c s')
  from last_page(1) last_page(3) have
    "request srv GET (WorkflowsPath (list_params options cursor)) None net =
       (Inr (WorkflowListResponse d c),
        \<lparr>server_state = s', sent = sent net @ [list_request options cursor]\<rparr>)"
    unfolding list_request_def by (intro request_answers) simp
  with last_page(2) last_page(4) show ?case
    by (subst listWorkflows_loop.simps) simp
next
  case (next_page s cursor d c s1 ps s')
  let ?net1 = "\<lparr>server_state = s1, sent = sent net @ [list_request options cursor]\<rparr>"
  from next_page(1) next_page(5) have
    q: "request srv GET (WorkflowsPath (list_params options cursor)) None net =
       (Inr (WorkflowListResponse d c), ?net1)"
    unfolding list_request_def by (intro request_answers) simp
  from next_page(3) have ne: "ps \<noteq> []" by (cases rule: pages_served.cases) auto
  have "listWorkflows_loop srv options (acc @ d) c ?net1 =
      Some (Inr ((acc @ d) @ concat (map fst ps)),
                 \<lparr>server_state = s',
                  sent = sent ?net1 @ map (list_request options) (c # map snd (butlast ps))\<rparr>)"
    using next_page(6) by (intro next_page.IH) simp_all
  with q next_page(2) next_page(6) ne show ?case
    by (subst listWorkflows_loop.simps) simp
qed


lemma request_success:
  "request srv m p b net = (Inr doc, net') \<Longrightarrow>
   answers srv (server_state net) \<lparr>req_method = m, req_path = p, req_body = b\<rparr> doc (server_state net') \<and>
   sent net' = sent net @ [\<lparr>req_method = m, req_path = p, req_body = b\<rparr>]"
  by (auto simp: answers_def request_def Let_def split: prod.splits)

text \<open>
  The pagination of \<^verbatim>\<open>listWorkflows\<close>. With a limit that the test
  \<^verbatim>\<open>if (options.limit)\<close> accepts, \<^verbatim>\<open>listWorkflows\<close> returns after exactly one
  request, whatever the server does; where the server answers that request with a
  page, the result is the data of that page, whatever cursor the page carries. With no
  such limit, and a server that serves a sequence of pages, each but the last with a
  non-empty cursor, \<^verbatim>\<open>listWorkflows\<close> sends one request for each page, the first
  with the caller's cursor and each later one with the cursor of the page before, and
  returns the data of all pages in order.
\<close>

theorem listWorkflows_pagination:
  "(truthy_number (opt_limit options) \<longrightarrow>
      (\<exists>r net'. listWorkflows srv options net = Some (r, net') \<and>
         sent net' = sent net @ [list_request options (opt_cursor options)])) \<and>
   (truthy_number (opt_limit options) \<and>
    answers srv (server_state net) (list_request options (opt_cursor options))
      (WorkflowListResponse d c) s' \<longrightarrow>
      listWorkflows srv options net =
        Some (Inr d, \<lparr>server_state = s',
                      sent = sent net @ [list_request options (opt_cursor options)]\<rparr>)) \<and>
   (\<not> truthy_number (opt_limit options) \<and>
    pages_served srv options (opt_cursor options) (server_state net) ps s' \<longrightarrow>
      listWorkflows srv options net =
        Some (Inr (concat (map fst ps)),
              \<lparr>server_state = s',
               sent = sent net @
                 map (list_request options) (opt_cursor options # map snd (butlast ps))\<rparr>))"
proof -
  have a: "\<exists>r net'. listWorkflows srv options net = Some (r, net') \<and>
         sent net' = sent net @ [list_request options (opt_cursor options)]"
    if "truthy_number (opt_limit options)"
    unfolding listWorkflows_def using that by (rule loop_limit)
  have b: "listWorkflows srv options net =
        Some (Inr d, \<lparr>server_state = s',
                      sent = sent net @ [list_request options (opt_cursor options)]\<rparr>)"
    if l: "truthy_number (opt_limit options)"
      and q: "answers srv (server_state net) (list_request options (opt_cursor options))
      (WorkflowListResponse d c) s'"
  proof -
    from q have "request srv GET (WorkflowsPath (list_params options (opt_cursor options))) None net =
       (Inr (WorkflowListResponse d c),
        \<lparr>server_state = s', sent = sent net @ [list_request options (opt_cursor options)]\<rparr>)"
      unfolding list_request_def by (intro request_answers) simp
    with l show ?thesis
      unfolding listWorkflows_def by (subst listWorkflows_loop.simps) simp
  qed
  have c: "listWorkflows srv options net =
        Some (Inr (concat (map fst ps)),
              \<lparr>server_state = s',
               sent = sent net @
                 map (list_request options) (opt_cursor options # map snd (butlast ps))\<rparr>)"
    if "\<not> truthy_number (opt_limit options)"
      and "pages_served srv options (opt_cursor options) (server_state net) ps s'"
    unfolding listWorkflows_def using loop_pages [OF that(2) that(1), of net "[]"] by simp
  from a b c show ?thesis by blast
qed

lemma two_pages_served:
  "pages_served scripted (list_options limit) None two_pages
     [([first_workflow], Some ''cursor1''), ([second_workflow], None)] []"
proof -
  let ?second = "ok (WorkflowListResponse [second_workflow] None)"
  have "answers scripted [?second] (list_request (list_options limit) (Some ''cursor1''))
          (WorkflowListResponse [second_workflow] None) []"
    by (simp add: answers_def api_result_def ok_def)
  then have rest: "pages_served scripted (list_options limit) (Some ''cursor1'') [?second]
          [([second_workflow], None)] []"
    by (rule last_page) simp
  have "answers scripted two_pages (list_request (list_options limit) None)
          (WorkflowListResponse [first_workflow] (Some ''cursor1'')) [?second]"
    by (simp add: answers_def api_result_def ok_def two_pages_def)
  then show ?thesis
    by (rule next_page) (simp, rule rest)
qed

theorem listWorkflows_pagination_witness:
  "truthy_number (opt_limit (list_options (Some 1))) \<and>
   answers scripted two_pages (list_request (list_options (Some 1)) None)
     (WorkflowListResponse [first_workflow] (Some ''cursor1'')) (tl two_pages) \<and>
   listWorkflows scripted (list_options (Some 1)) \<lparr>server_state = two_pages, sent = []\<rparr> =
     Some (Inr [first_workflow],
           \<lparr>server_state = tl two_pages, sent = [list_request (list_options (Some 1)) None]\<rparr>) \<and>
   \<not> truthy_number (opt_limit (list_options None)) \<and>
   pages_served scripted (list_options None) None two_pages
     [([first_workflow], Some ''cursor1''), ([second_workflow], None)] [] \<and>
   listWorkflows scripted (list_options None) \<lparr>server_state = two_pages, sent = []\<rparr> =
     Some (Inr [first_workflow, second_workflow],
           \<lparr>server_state = [],
            sent = [list_request (list_options None) None,
                    list_request (list_options None) (Some ''cursor1'')]\<rparr>)"
proof -
  let ?net = "\<lparr>server_state = two_pages, sent = []\<rparr>"
  have l: "truthy_number (opt_limit (list_options (Some 1)))" by (simp add: list_options_def)
  have q: "answers scripted (server_state ?net)
     (list_request (list_options (Some 1)) (opt_cursor (list_options (Some 1))))
     (WorkflowListResponse [first_workflow] (Some ''cursor1'')) (tl two_pages)"
    by (simp add: answers_def api_result_def ok_def two_pages_def)
  have n: "\<not> truthy_number (opt_limit (list_options None))" by (simp add: list_options_def)
  have p: "pages_served scripted (list_options None) (opt_cursor (list_options None))
     (server_state ?net) [([first_workflow], Some ''cursor1''), ([second_workflow], None)] []"
    using two_pages_served [of None] by (simp add: list_options_def)
  have c: "opt_cursor (list_options x) = None" for x by (simp add: list_options_def)
  from l q listWorkflows_pagination [where options = "list_options (Some 1)" and srv = scripted
      and net = ?net and d = "[first_workflow]" and c = "Some ''cursor1''" and s' = "tl two_pages"]
  have one: "listWorkflows scripted (list_options (Some 1)) ?net =
     Some (Inr [first_workflow],
           \<lparr>server_state = tl two_pages, sent = [list_request (list_options (Some 1)) None]\<rparr>)"
    by (simp add: c)
  from n p listWorkflows_pagination [where options = "list_options None" and srv = scripted
      and net = ?net and s' = "[]"
      and ps = "[([first_workflow], Some ''cursor1''), ([second_workflow], None)]"]
  have two: "listWorkflows scripted (list_options None) ?net =
     Some (Inr [first_workflow, second_workflow],
           \<lparr>server_state = [],
            sent = [list_request (list_options None) None,
                    list_request (list_options None) (Some ''cursor1'')]\<rparr>)"
    by (simp add: c)
  from l q one n p two show ?thesis by (simp add: c)
qed

text \<open>
  Claim C3, evaluated at the limit 0. The claim, like the comment in the source
  (``If limit was specified, don't paginate''), has one request whenever a limit is
  supplied. \<^verbatim>\<open>listWorkflows({limit: 0})\<close> against a server with two pages sends two
  requests and returns both pages: \<^verbatim>\<open>if (options.limit)\<close> is false for 0, so the
  limit is not sent and the loop does not stop after the first page.
\<close>

theorem listWorkflows_limit_zero:
  "opt_limit (list_options (Some 0)) = Some 0 \<and>
   listWorkflows scripted (list_options (Some 0)) \<lparr>server_state = two_pages, sent = []\<rparr> =
     Some (Inr [first_workflow, second_workflow],
           \<lparr>server_state = [],
            sent = [list_request (list_options (Some 0)) None,
                    list_request (list_options (Some 0)) (Some ''cursor1'')]\<rparr>)"
proof -
  have n: "\<not> truthy_number (opt_limit (list_options (Some 0)))" by (simp add: list_options_def)
  have c: "opt_cursor (list_options (Some 0)) = None" by (simp add: list_options_def)
  from loop_pages [OF two_pages_served [of "Some 0"] n, of "\<lparr>server_state = two_pages, sent = []\<rparr>" "[]"]
  show ?thesis by (simp add: listWorkflows_def c list_options_def)
qed

lemma listTags_iff:
  "listTags srv net = (Inr ts, net') \<longleftrightarrow>
   answers srv (server_state net) tag_list_request (TagListResponse ts) (server_state net') \<and>
   sent net' = sent net @ [tag_list_request]"
  by (auto simp: listTags_def tag_list_request_def answers_def request_def Let_def
      split: prod.splits sum.splits payload.splits)

lemma createTag_iff:
  "createTag srv n net = (Inr t, net') \<longleftrightarrow>
   answers srv (server_state net) (tag_create_request n) (TagDocument t) (server_state net') \<and>
   sent net' = sent net @ [tag_create_request n]"
  by (auto simp: createTag_def tag_create_request_def answers_def request_def Let_def
      split: prod.splits sum.splits payload.splits)

lemma getWorkflow_iff:
  "getWorkflow srv wid net = (Inr w, net') \<longleftrightarrow>
   answers srv (server_state net) (workflow_request wid) (WorkflowDocument w) (server_state net') \<and>
   sent net' = sent net @ [workflow_request wid]"
  by (auto simp: getWorkflow_def workflow_request_def answers_def request_def Let_def
      split: prod.splits sum.splits payload.splits)

lemma setWorkflowTags_iff:
  "setWorkflowTags srv wid ids net = (Inr u, net') \<longleftrightarrow>
   (\<exists>doc. answers srv (server_state net) (set_tags_request wid ids) doc (server_state net')) \<and>
   sent net' = sent net @ [set_tags_request wid ids]"
  by (auto simp: setWorkflowTags_def set_tags_request_def answers_def request_def Let_def
      split: prod.splits sum.splits)

lemma collect_resolved:
  "tags_resolved srv names s ids s' reqs \<Longrightarrow> server_state net = s \<Longrightarrow>
   collect_tag_ids srv names acc net =
     (Inr (acc @ ids), \<lparr>server_state = s', sent = sent net @ reqs\<rparr>)"
proof (induction arbitrary: net acc rule: tags_resolved.induct)
  case (no_names s)
  then show ?case by simp
next
  case (tag_found s ts s1 n t names ids s' reqs)
  let ?net1 = "\<lparr>server_state = s1, sent = sent net @ [tag_list_request]\<rparr>"
  from tag_found(1) tag_found(5) have "listTags srv net = (Inr ts, ?net1)"
    by (simp add: listTags_iff)
  with tag_found(2) have "getOrCreateTag srv n net = (Inr t, ?net1)"
    by (simp add: getOrCreateTag_def)
  moreover have "collect_tag_ids srv names (acc @ [tag_id t]) ?net1 =
      (Inr ((acc @ [tag_id t]) @ ids), \<lparr>server_state = s', sent = sent ?net1 @ reqs\<rparr>)"
    by (rule tag_found.IH) simp
  ultimately show ?case by simp
next
  case (tag_created s ts s1 n t s2 names ids s' reqs)
  let ?net1 = "\<lparr>server_state = s1, sent = sent net @ [tag_list_request]\<rparr>"
  let ?net2 = "\<lparr>server_state = s2, sent = sent ?net1 @ [tag_create_request n]\<rparr>"
  from tag_created(1) tag_created(6) have "listTags srv net = (Inr ts, ?net1)"
    by (simp add: listTags_iff)
  moreover from tag_created(3) have "createTag srv n ?net1 = (Inr t, ?net2)"
    by (simp add: createTag_iff)
  ultimately have "getOrCreateTag srv n net = (Inr t, ?net2)"
    using tag_created(2) by (simp add: getOrCreateTag_def)
  moreover have "collect_tag_ids srv names (acc @ [tag_id t]) ?net2 =
      (Inr ((acc @ [tag_id t]) @ ids), \<lparr>server_state = s', sent = sent ?net2 @ reqs\<rparr>)"
    by (rule tag_created.IH) simp
  ultimately show ?case by simp
qed

lemma getOrCreateTag_success:
  assumes "getOrCreateTag srv n net = (Inr t, net')"
  shows "\<exists>ts s1.
      answers srv (server_state net) tag_list_request (TagListResponse ts) s1 \<and>
      (find (\<lambda>t. tag_name t = n) ts = Some t \<and> server_state net' = s1 \<and>
         sent net' = sent net @ [tag_list_request] \<or>
       find (\<lambda>t. tag_name t = n) ts = None \<and>
         answers srv s1 (tag_create_request n) (TagDocument t) (server_state net') \<and>
         sent net' = sent net @ [tag_list_request, tag_create_request n])"
proof -
  obtain r net1 where l: "listTags srv net = (r, net1)" by (cases "listTags srv net")
  with assms obtain ts where r: "r = Inr ts"
    by (cases r) (auto simp: getOrCreateTag_def)
  from l r have a: "answers srv (server_state net) tag_list_request (TagListResponse ts) (server_state net1)"
    and s: "sent net1 = sent net @ [tag_list_request]"
    by (simp_all add: listTags_iff)
  show ?thesis
  proof (cases "find (\<lambda>t. tag_name t = n) ts")
    case None
    with assms l r have "createTag srv n net1 = (Inr t, net')" by (simp add: getOrCreateTag_def)
    then have "answers srv (server_state net1) (tag_create_request n) (TagDocument t) (server_state net')"
      and "sent net' = sent net1 @ [tag_create_request n]"
      by (simp_all add: createTag_iff)
    with a s None show ?thesis by auto
  next
    case (Some t')
    with assms l r have "t' = t" "net' = net1" by (simp_all add: getOrCreateTag_def)
    with a s Some show ?thesis by auto
  qed
qed

lemma collect_success:
  "collect_tag_ids srv names acc net = (Inr ids', net') \<Longrightarrow>
   \<exists>ids reqs. tags_resolved srv names (server_state net) ids (server_state net') reqs \<and>
      ids' = acc @ ids \<and> sent net' = sent net @ reqs"
proof (induction names arbitrary: acc net)
  case Nil
  then have "ids' = acc" "net' = net" by simp_all
  then show ?case using no_names [of srv "server_state net"] by auto
next
  case (Cons n names)
  obtain r net1 where g: "getOrCreateTag srv n net = (r, net1)" by (cases "getOrCreateTag srv n net")
  with Cons.prems obtain t where r: "r = Inr t" by (cases r) auto
  with g Cons.prems have c: "collect_tag_ids srv names (acc @ [tag_id t]) net1 = (Inr ids', net')"
    by simp
  from Cons.IH [OF c] obtain ids reqs where
    tr: "tags_resolved srv names (server_state net1) ids (server_state net') reqs"
    and i: "ids' = (acc @ [tag_id t]) @ ids" and s: "sent net' = sent net1 @ reqs"
    by blast
  from getOrCreateTag_success [OF g [unfolded r]] obtain ts s1 where
    a: "answers srv (server_state net) tag_list_request (TagListResponse ts) s1"
    and d: "find (\<lambda>t. tag_name t = n) ts = Some t \<and> server_state net1 = s1 \<and>
         sent net1 = sent net @ [tag_list_request] \<or>
       find (\<lambda>t. tag_name t = n) ts = None \<and>
         answers srv s1 (tag_create_request n) (TagDocument t) (server_state net1) \<and>
         sent net1 = sent net @ [tag_list_request, tag_create_request n]"
    by blast
  from d show ?case
  proof
    assume f: "find (\<lambda>t. tag_name t = n) ts = Some t \<and> server_state net1 = s1 \<and>
         sent net1 = sent net @ [tag_list_request]"
    with a tr have "tags_resolved srv (n # names) (server_state net) (tag_id t # ids)
        (server_state net') (tag_list_request # reqs)"
      by (intro tag_found [where ts = ts and ?s1.0 = s1]) simp_all
    with i s f show ?thesis by auto
  next
    assume f: "find (\<lambda>t. tag_name t = n) ts = None \<and>
         answers srv s1 (tag_create_request n) (TagDocument t) (server_state net1) \<and>
         sent net1 = sent net @ [tag_list_request, tag_create_request n]"
    with a tr have "tags_resolved srv (n # names) (server_state net) (tag_id t # ids)
        (server_state net') (tag_list_request # tag_create_request n # reqs)"
      by (intro tag_created [where ts = ts and ?s1.0 = s1 and ?s2.0 = "server_state net1"]) simp_all
    with i s f show ?thesis by auto
  qed
qed

lemma tags_resolved_counts:
  "tags_resolved srv names s ids s' reqs \<Longrightarrow>
   length ids = length names \<and> count_list reqs tag_list_request = length names"
  by (induction rule: tags_resolved.induct)
     (auto simp: tag_list_request_def tag_create_request_def)

lemma fold_new_Set:
  "set (fold (\<lambda>x seen. if x \<in> set seen then seen else seen @ [x]) xs acc) = set acc \<union> set xs \<and>
   (distinct acc \<longrightarrow> distinct (fold (\<lambda>x seen. if x \<in> set seen then seen else seen @ [x]) xs acc))"
  by (induction xs arbitrary: acc) auto

lemma set_new_Set: "set (new_Set xs) = set xs"
  using fold_new_Set [of xs "[]"] by (simp add: new_Set_def)

lemma distinct_new_Set: "distinct (new_Set xs)"
  using fold_new_Set [of xs "[]"] by (simp add: new_Set_def)

text \<open>
  Claim C1, as the code has it. \<^verbatim>\<open>addTagsToWorkflow\<close> returns normally exactly when
  the server resolves the desired names one after the other, each with a tag-list
  request of its own and a create request where that listing lacks the name, then
  answers the request for the workflow, and then the request that sets the workflow's
  tags to the ids of its current tags followed by the desired ids, each id once; these
  are the requests sent, in this order. Resolving the names takes as many tag-list
  requests as there are names and gives one id for each; the ids set are the union of
  the current and the desired ids.
\<close>

theorem addTagsToWorkflow_requests:
  "(addTagsToWorkflow srv wid tagNames net = (Inr (), net') \<longleftrightarrow>
      (\<exists>ids reqs s1 w s2 doc.
         tags_resolved srv tagNames (server_state net) ids s1 reqs \<and>
         answers srv s1 (workflow_request wid) (WorkflowDocument w) s2 \<and>
         answers srv s2 (set_tags_request wid (new_Set (existingTagIds w @ ids))) doc
           (server_state net') \<and>
         sent net' = sent net @ reqs @
           [workflow_request wid, set_tags_request wid (new_Set (existingTagIds w @ ids))])) \<and>
   (tags_resolved srv tagNames s ids s1 reqs \<longrightarrow>
      length ids = length tagNames \<and> count_list reqs tag_list_request = length tagNames) \<and>
   set (new_Set (existing @ ids)) = set existing \<union> set ids \<and>
   distinct (new_Set (existing @ ids))"
proof -
  let ?put = "\<lambda>w ids. set_tags_request wid (new_Set (existingTagIds w @ ids))"
  let ?R = "\<exists>ids reqs s1 w s2 doc.
         tags_resolved srv tagNames (server_state net) ids s1 reqs \<and>
         answers srv s1 (workflow_request wid) (WorkflowDocument w) s2 \<and>
         answers srv s2 (?put w ids) doc (server_state net') \<and>
         sent net' = sent net @ reqs @ [workflow_request wid, ?put w ids]"
  have forward: ?R if run: "addTagsToWorkflow srv wid tagNames net = (Inr (), net')"
  proof -
    obtain r1 net1 where c: "collect_tag_ids srv tagNames [] net = (r1, net1)"
      by (cases "collect_tag_ids srv tagNames [] net")
    with run obtain tagIds where r1: "r1 = Inr tagIds"
      by (cases r1) (auto simp: addTagsToWorkflow_def)
    obtain r2 net2 where g: "getWorkflow srv wid net1 = (r2, net2)"
      by (cases "getWorkflow srv wid net1")
    with run c r1 obtain w where r2: "r2 = Inr w"
      by (cases r2) (auto simp: addTagsToWorkflow_def)
    from run c r1 g r2 have p: "setWorkflowTags srv wid (new_Set (existingTagIds w @ tagIds)) net2 = (Inr (), net')"
      by (simp add: addTagsToWorkflow_def Let_def)
    from collect_success [OF c [unfolded r1]] obtain reqs where
      tr: "tags_resolved srv tagNames (server_state net) tagIds (server_state net1) reqs"
      and s1: "sent net1 = sent net @ reqs"
      by auto
    from g r2 have a2: "answers srv (server_state net1) (workflow_request wid) (WorkflowDocument w) (server_state net2)"
      and s2: "sent net2 = sent net1 @ [workflow_request wid]"
      by (simp_all add: getWorkflow_iff)
    from p obtain doc where
      a3: "answers srv (server_state net2) (?put w tagIds) doc (server_state net')"
      and s3: "sent net' = sent net2 @ [?put w tagIds]"
      by (auto simp: setWorkflowTags_iff)
    from tr a2 a3 s1 s2 s3 show ?thesis by (intro exI conjI) (assumption+, simp)
  qed
  have backward: "addTagsToWorkflow srv wid tagNames net = (Inr (), net')" if ?R
  proof -
    from that obtain ids reqs s1 w s2 doc where
      tr: "tags_resolved srv tagNames (server_state net) ids s1 reqs"
      and a2: "answers srv s1 (workflow_request wid) (WorkflowDocument w) s2"
      and a3: "answers srv s2 (?put w ids) doc (server_state net')"
      and s: "sent net' = sent net @ reqs @ [workflow_request wid, ?put w ids]"
      by blast
    let ?net1 = "\<lparr>server_state = s1, sent = sent net @ reqs\<rparr>"
    let ?net2 = "\<lparr>server_state = s2, sent = sent ?net1 @ [workflow_request wid]\<rparr>"
    from collect_resolved [OF tr, of net "[]"] have
      c: "collect_tag_ids srv tagNames [] net = (Inr ids, ?net1)" by simp
    from a2 have g: "getWorkflow srv wid ?net1 = (Inr w, ?net2)" by (simp add: getWorkflow_iff)
    from a3 s have p: "setWorkflowTags srv wid (new_Set (existingTagIds w @ ids)) ?net2 = (Inr (), net')"
      by (auto simp: setWorkflowTags_iff)
    from c g p show ?thesis by (simp add: addTagsToWorkflow_def Let_def)
  qed
  from forward backward have "addTagsToWorkflow srv wid tagNames net = (Inr (), net') \<longleftrightarrow> ?R"
    by blast
  moreover have "tags_resolved srv tagNames s ids s1 reqs \<longrightarrow>
      length ids = length tagNames \<and> count_list reqs tag_list_request = length tagNames"
    using tags_resolved_counts [of srv tagNames s ids s1 reqs] by blast
  moreover have "set (new_Set (existing @ ids)) = set existing \<union> set ids"
    by (simp add: set_new_Set)
  moreover have "distinct (new_Set (existing @ ids))" by (rule distinct_new_Set)
  ultimately show ?thesis by (intro conjI)
qed

lemma tagging_resolved:
  "tags_resolved scripted [''managed-by:cron8n'', ''cron8n:daily-backup''] tagging_results
     [''1'', ''2''] (drop 3 tagging_results)
     [tag_list_request, tag_list_request, tag_create_request ''cron8n:daily-backup'']"
proof -
  have a1: "answers scripted tagging_results tag_list_request (TagListResponse [managed_tag])
      (drop 1 tagging_results)"
    by (simp add: answers_def api_result_def ok_def tagging_results_def)
  have a2: "answers scripted (drop 1 tagging_results) tag_list_request (TagListResponse [managed_tag])
      (drop 2 tagging_results)"
    by (simp add: answers_def api_result_def ok_def tagging_results_def)
  have a3: "answers scripted (drop 2 tagging_results) (tag_create_request ''cron8n:daily-backup'')
      (TagDocument slug_tag) (drop 3 tagging_results)"
    by (simp add: answers_def api_result_def ok_def tagging_results_def)
  have f1: "find (\<lambda>t. tag_name t = ''managed-by:cron8n'') [managed_tag] = Some managed_tag"
    by (simp add: managed_tag_def)
  have f2: "find (\<lambda>t. tag_name t = ''cron8n:daily-backup'') [managed_tag] = None"
    by (simp add: managed_tag_def)
  have "tags_resolved scripted [''cron8n:daily-backup''] (drop 1 tagging_results)
      [tag_id slug_tag] (drop 3 tagging_results)
      [tag_list_request, tag_create_request ''cron8n:daily-backup'']"
    using a2 f2 a3 no_names by (rule tag_created)
  with a1 f1 have "tags_resolved scripted [''managed-by:cron8n'', ''cron8n:daily-backup'']
      tagging_results [tag_id managed_tag, tag_id slug_tag] (drop 3 tagging_results)
      [tag_list_request, tag_list_request, tag_create_request ''cron8n:daily-backup'']"
    by (rule tag_found)
  then show ?thesis by (simp add: managed_tag_def slug_tag_def)
qed

lemma tagging_run:
  "addTagsToWorkflow scripted ''456'' [''managed-by:cron8n'', ''cron8n:daily-backup'']
     \<lparr>server_state = tagging_results, sent = []\<rparr> =
   (Inr (),
    \<lparr>server_state = [],
     sent = [tag_list_request, tag_list_request, tag_create_request ''cron8n:daily-backup'',
             workflow_request ''456'', set_tags_request ''456'' [''7'', ''1'', ''2'']]\<rparr>)"
  by (simp add: addTagsToWorkflow_def getOrCreateTag_def listTags_def createTag_def
      getWorkflow_def setWorkflowTags_def request_def api_result_def Let_def ok_def
      tagging_results_def managed_tag_def slug_tag_def second_workflow_def existingTagIds_def
      new_Set_def tag_list_request_def tag_create_request_def workflow_request_def
      set_tags_request_def)

theorem addTagsToWorkflow_requests_witness:
  "tags_resolved scripted [''managed-by:cron8n'', ''cron8n:daily-backup''] tagging_results
     [''1'', ''2''] (drop 3 tagging_results)
     [tag_list_request, tag_list_request, tag_create_request ''cron8n:daily-backup''] \<and>
   count_list [tag_list_request, tag_list_request, tag_create_request ''cron8n:daily-backup'']
     tag_list_request = 2 \<and>
   new_Set (existingTagIds second_workflow @ [''1'', ''2'']) = [''7'', ''1'', ''2''] \<and>
   addTagsToWorkflow scripted ''456'' [''managed-by:cron8n'', ''cron8n:daily-backup'']
     \<lparr>server_state = tagging_results, sent = []\<rparr> =
   (Inr (),
    \<lparr>server_state = [],
     sent = [tag_list_request, tag_list_request, tag_create_request ''cron8n:daily-backup'',
             workflow_request ''456'', set_tags_request ''456'' [''7'', ''1'', ''2'']]\<rparr>)"
proof -
  let ?names = "[''managed-by:cron8n'', ''cron8n:daily-backup'']"
  let ?reqs = "[tag_list_request, tag_list_request, tag_create_request ''cron8n:daily-backup'']"
  let ?net = "\<lparr>server_state = tagging_results, sent = []\<rparr>"
  let ?net' = "\<lparr>server_state = [],
     sent = ?reqs @ [workflow_request ''456'', set_tags_request ''456'' [''7'', ''1'', ''2'']]\<rparr>"
  note inst = addTagsToWorkflow_requests [where srv = scripted and wid = "''456''"
      and tagNames = ?names and net = ?net and net' = ?net' and s = tagging_results
      and ids = "[''1'', ''2'']" and ?s1.0 = "drop 3 tagging_results" and reqs = ?reqs
      and existing = "existingTagIds second_workflow"]
  have n: "new_Set (existingTagIds second_workflow @ [''1'', ''2'']) = [''7'', ''1'', ''2'']"
    by (simp add: new_Set_def existingTagIds_def second_workflow_def)
  have a4: "answers scripted (drop 3 tagging_results) (workflow_request ''456'')
      (WorkflowDocument second_workflow) (drop 4 tagging_results)"
    by (simp add: answers_def api_result_def ok_def tagging_results_def)
  have a5: "answers scripted (drop 4 tagging_results)
      (set_tags_request ''456'' (new_Set (existingTagIds second_workflow @ [''1'', ''2'']))) EmptyObject
      (server_state ?net')"
    by (simp add: answers_def api_result_def tagging_results_def)
  from tagging_resolved inst have c: "count_list ?reqs tag_list_request = 2" by simp
  have "\<exists>ids reqs s1 w s2 doc.
         tags_resolved scripted ?names (server_state ?net) ids s1 reqs \<and>
         answers scripted s1 (workflow_request ''456'') (WorkflowDocument w) s2 \<and>
         answers scripted s2 (set_tags_request ''456'' (new_Set (existingTagIds w @ ids))) doc
           (server_state ?net') \<and>
         sent ?net' = sent ?net @ reqs @
           [workflow_request ''456'', set_tags_request ''456'' (new_Set (existingTagIds w @ ids))]"
    using tagging_resolved a4 a5 n
    by (intro exI [of _ "[''1'', ''2'']"] exI [of _ ?reqs] exI [of _ "drop 3 tagging_results"]
        exI [of _ second_workflow] exI [of _ "drop 4 tagging_results"] exI [of _ EmptyObject]) simp
  with inst have "addTagsToWorkflow scripted ''456'' ?names ?net = (Inr (), ?net')" by blast
  with tagging_resolved c n show ?thesis by simp
qed

text \<open>
  The claim as the specification states it, one tag-list request shared by all desired
  names, fails for two names: \<^verbatim>\<open>getOrCreateTag\<close> lists the tags anew for each.
\<close>

theorem addTagsToWorkflow_one_listing_counterexample:
  "addTagsToWorkflow scripted ''456'' [''managed-by:cron8n'', ''cron8n:daily-backup'']
     \<lparr>server_state = tagging_results, sent = []\<rparr> =
   (Inr (),
    \<lparr>server_state = [],
     sent = [tag_list_request, tag_list_request, tag_create_request ''cron8n:daily-backup'',
             workflow_request ''456'', set_tags_request ''456'' [''7'', ''1'', ''2'']]\<rparr>) \<and>
   count_list [tag_list_request, tag_list_request, tag_create_request ''cron8n:daily-backup'',
               workflow_request ''456'', set_tags_request ''456'' [''7'', ''1'', ''2'']]
     tag_list_request = 2"
  using tagging_run
  by (simp add: tag_list_request_def tag_create_request_def workflow_request_def
      set_tags_request_def)

section \<open>Properties of the manifest store\<close>

lemma manifest_roundtrip: "ManifestSchema_parse (manifest_json m) = Some m"
proof -
  have "those (map (\<lambda>x. z_string (Some x)) (map JStr ts)) = Some ts" for ts
    by (induction ts) simp_all
  then show ?thesis
    by (cases m; cases "lastDeployedWorkflowId m"; cases "lastDeployedAt m")
       (simp_all add: manifest_json_def property_def)
qed

lemma manifest_json_no_updatedAt: "json_property (manifest_json m) ''updatedAt'' = None"
  by (cases "lastDeployedWorkflowId m"; cases "lastDeployedAt m")
     (simp_all add: manifest_json_def json_property_def property_def)

lemma updateManifestDeployment_result:
  assumes "loadManifest fs s basePath = Inr m"
    and "writable fs (getManifestPath fs (m_slug m) basePath)"
  shows "updateManifestDeployment fs now s wid basePath =
           Inr (m\<lparr>lastDeployedWorkflowId := Some wid, lastDeployedAt := Some (getISOTimestamp now)\<rparr>,
                fs\<lparr>files := (files fs)(getManifestPath fs (m_slug m) basePath \<mapsto>
                  Doc (manifest_json (m\<lparr>lastDeployedWorkflowId := Some wid,
                                        lastDeployedAt := Some (getISOTimestamp now)\<rparr>)))\<rparr>)"
  using assms by (simp add: updateManifestDeployment_def saveManifest_def writeJson_def Let_def)

text \<open>
  Claim C2, evaluated. \<^verbatim>\<open>updateManifestDeployment\<close> on a manifest file that has an
  \<^verbatim>\<open>updatedAt\<close> property loads the manifest, sets \<^verbatim>\<open>lastDeployedWorkflowId\<close> and
  \<^verbatim>\<open>lastDeployedAt\<close>, and saves it: the document it writes has the deployment time,
  and no \<^verbatim>\<open>updatedAt\<close> property at all. The schema of the manifest does not name
  the property, so loading drops it, and the function does not set it.
\<close>

theorem updateManifestDeployment_updatedAt:
  "json_property manifest_document ''updatedAt'' = Some (JStr ''2026-02-03T09:15:00.000Z'') \<and>
   updateManifestDeployment manifest_fs example_now ''daily-backup'' ''123'' None =
     Inr (deployed_manifest,
          manifest_fs\<lparr>files := (files manifest_fs)
            (''/home/u/proj/workflows/daily-backup.cron8n.json'' \<mapsto>
               Doc (manifest_json deployed_manifest))\<rparr>) \<and>
   json_property (manifest_json deployed_manifest) ''updatedAt'' = None \<and>
   json_property (manifest_json deployed_manifest) ''lastDeployedAt'' =
     Some (JStr ''2026-02-07T12:30:05.042Z'')"
proof -
  have t: "getISOTimestamp example_now = ''2026-02-07T12:30:05.042Z''" by code_simp
  have p: "getManifestPath manifest_fs ''daily-backup'' None =
      ''/home/u/proj/workflows/daily-backup.cron8n.json''"
    by (simp add: getManifestPath_def getWorkflowsDir_def WORKFLOWS_DIR_def manifest_fs_def)
  have l: "loadManifest manifest_fs ''daily-backup'' None =
      Inr (deployed_manifest\<lparr>lastDeployedWorkflowId := None, lastDeployedAt := None\<rparr>)"
    unfolding loadManifest_def p
    by (simp add: readJson_def manifest_fs_def manifest_document_def property_def
        deployed_manifest_def)
  have w: "writable manifest_fs (getManifestPath manifest_fs
      (m_slug (deployed_manifest\<lparr>lastDeployedWorkflowId := None, lastDeployedAt := None\<rparr>)) None)"
    by (simp add: manifest_fs_def)
  have s: "m_slug (deployed_manifest\<lparr>lastDeployedWorkflowId := None, lastDeployedAt := None\<rparr>) =
      ''daily-backup''"
    by (simp add: deployed_manifest_def)
  have d: "deployed_manifest\<lparr>lastDeployedWorkflowId := Some ''123'',
      lastDeployedAt := Some ''2026-02-07T12:30:05.042Z''\<rparr> = deployed_manifest"
    by (simp add: deployed_manifest_def)
  from updateManifestDeployment_result [OF l w, of example_now "''123''"]
  have "updateManifestDeployment manifest_fs example_now ''daily-backup'' ''123'' None =
     Inr (deployed_manifest,
          manifest_fs\<lparr>files := (files manifest_fs)
            (''/home/u/proj/workflows/daily-backup.cron8n.json'' \<mapsto>
               Doc (manifest_json deployed_manifest))\<rparr>)"
    unfolding s p t by (simp add: d)
  moreover have "json_property manifest_document ''updatedAt'' = Some (JStr ''2026-02-03T09:15:00.000Z'')"
    by (simp add: json_property_def manifest_document_def property_def)
  moreover have "json_property (manifest_json deployed_manifest) ''lastDeployedAt'' =
     Some (JStr ''2026-02-07T12:30:05.042Z'')"
    by (simp add: json_property_def manifest_json_def deployed_manifest_def property_def)
  ultimately show ?thesis by (simp add: manifest_json_no_updatedAt)
qed

section \<open>Properties of the cron validator\<close>

lemma next_runs_length: "next_runs lib n i = Inr ds \<Longrightarrow> length ds = n"
  by (induction n arbitrary: i ds) (auto split: sum.splits prod.splits)

lemma next_runs_forward:
  "iterates_forward lib I \<Longrightarrow> I i t \<Longrightarrow>
   \<exists>ds. next_runs lib n i = Inr ds \<and> length ds = n \<and> (\<forall>d\<in>set ds. t < d) \<and> sorted_wrt (<) ds"
proof (induction n arbitrary: i t)
  case 0
  then show ?case by simp
next
  case (Suc n)
  from Suc.prems obtain t' i' where
    s: "next_date lib i = Inr (t', i')" and lt: "t < t'" and I': "I i' t'"
    unfolding iterates_forward_def by blast
  from Suc.IH [OF Suc.prems(1) I'] obtain ds where
    ds: "next_runs lib n i' = Inr ds" "length ds = n" "\<forall>d\<in>set ds. t' < d" "sorted_wrt (<) ds"
    by blast
  with s lt have "next_runs lib (Suc n) i = Inr (t' # ds) \<and> length (t' # ds) = Suc n \<and>
      (\<forall>d\<in>set (t' # ds). t < d) \<and> sorted_wrt (<) (t' # ds)"
    by auto
  then show ?case by blast
qed

text \<open>
  Claim C4. For a valid expression, one the package accepts and can iterate forward
  from the current date, \<^verbatim>\<open>parseCron\<close> returns \<^verbatim>\<open>isValid\<close> true, no error, and as
  many dates as requested (5 by default, none for a count below 0), each strictly after
  the current date and in ascending order. For a malformed expression, one the package
  rejects, it returns \<^verbatim>\<open>isValid\<close> false, no dates and a non-empty error text. In
  every case, whatever the package throws, the call returns a result of one of these
  two shapes.
\<close>

theorem parseCron_contract:
  "(valid_expression lib I e (case tz of None \<Rightarrow> ''Europe/Istanbul'' | Some z \<Rightarrow> z) now \<longrightarrow>
      isValid (parseCron lib now e tz cnt) \<and>
      length (nextRuns (parseCron lib now e tz cnt)) = nat (case cnt of None \<Rightarrow> 5 | Some c \<Rightarrow> c) \<and>
      (\<forall>t\<in>set (nextRuns (parseCron lib now e tz cnt)). now < t) \<and>
      sorted_wrt (<) (nextRuns (parseCron lib now e tz cnt)) \<and>
      error (parseCron lib now e tz cnt) = None) \<and>
   (malformed_expression lib e (case tz of None \<Rightarrow> ''Europe/Istanbul'' | Some z \<Rightarrow> z) now \<longrightarrow>
      \<not> isValid (parseCron lib now e tz cnt) \<and>
      nextRuns (parseCron lib now e tz cnt) = [] \<and>
      (\<exists>m. error (parseCron lib now e tz cnt) = Some m \<and> m \<noteq> [])) \<and>
   (isValid (parseCron lib now e tz cnt) \<and>
      length (nextRuns (parseCron lib now e tz cnt)) = nat (case cnt of None \<Rightarrow> 5 | Some c \<Rightarrow> c) \<and>
      error (parseCron lib now e tz cnt) = None \<or>
    \<not> isValid (parseCron lib now e tz cnt) \<and>
      nextRuns (parseCron lib now e tz cnt) = [] \<and>
      (\<exists>m. error (parseCron lib now e tz cnt) = Some m))"
proof -
  let ?zone = "case tz of None \<Rightarrow> ''Europe/Istanbul'' | Some z \<Rightarrow> z"
  let ?n = "nat (case cnt of None \<Rightarrow> 5 | Some c \<Rightarrow> c)"
  let ?r = "parseCron lib now e tz cnt"
  have valid: "isValid ?r \<and> length (nextRuns ?r) = ?n \<and> (\<forall>t\<in>set (nextRuns ?r). now < t) \<and>
      sorted_wrt (<) (nextRuns ?r) \<and> error ?r = None"
    if "valid_expression lib I e ?zone now"
  proof -
    from that obtain i where p: "parseExpression lib e ?zone now = Inr i"
      and i: "I i now" and f: "iterates_forward lib I"
      unfolding valid_expression_def by blast
    from next_runs_forward [OF f i, of ?n] obtain ds where
      "next_runs lib ?n i = Inr ds" "length ds = ?n" "\<forall>d\<in>set ds. now < d" "sorted_wrt (<) ds"
      by blast
    with p show ?thesis by (simp add: parseCron_def Let_def)
  qed
  have malformed: "\<not> isValid ?r \<and> nextRuns ?r = [] \<and> (\<exists>m. error ?r = Some m \<and> m \<noteq> [])"
    if "malformed_expression lib e ?zone now"
  proof -
    from that obtain t where p: "parseExpression lib e ?zone now = Inl t"
      and m: "\<forall>m. t = ThrownError m \<longrightarrow> m \<noteq> []"
      unfolding malformed_expression_def by blast
    then show ?thesis by (cases t) (simp_all add: parseCron_def Let_def caught_def)
  qed
  have shape: "isValid ?r \<and> length (nextRuns ?r) = ?n \<and> error ?r = None \<or>
    \<not> isValid ?r \<and> nextRuns ?r = [] \<and> (\<exists>m. error ?r = Some m)"
    by (auto simp: parseCron_def Let_def caught_def next_runs_length split: sum.splits)
  from valid malformed shape show ?thesis by blast
qed

lemma every_minute_forward: "iterates_forward every_minute (\<lambda>i t. i = t)"
proof -
  have "t < (t div 60000 + 1) * 60000" for t :: int
    by presburger
  then show ?thesis by (simp add: iterates_forward_def every_minute_def)
qed

theorem parseCron_contract_witness:
  "valid_expression every_minute (\<lambda>i t. i = t) ''* * * * *'' ''UTC'' 1770467405042 \<and>
   parseCron every_minute 1770467405042 ''* * * * *'' (Some ''UTC'') (Some 3) =
     \<lparr>expression = ''* * * * *'', isValid = True,
      nextRuns = [1770467460000, 1770467520000, 1770467580000], error = None\<rparr> \<and>
   malformed_expression every_minute ''60 * * * *'' ''Europe/Istanbul'' 1770467405042 \<and>
   parseCron every_minute 1770467405042 ''60 * * * *'' None None =
     \<lparr>expression = ''60 * * * *'', isValid = False, nextRuns = [],
      error = Some ''Invalid cron expression: 60 * * * *''\<rparr>"
proof -
  have v: "valid_expression every_minute (\<lambda>i t. i = t) ''* * * * *''
      (case Some ''UTC'' of None \<Rightarrow> ''Europe/Istanbul'' | Some z \<Rightarrow> z) 1770467405042"
    using every_minute_forward by (simp add: valid_expression_def every_minute_def)
  have m: "malformed_expression every_minute ''60 * * * *''
      (case None of None \<Rightarrow> ''Europe/Istanbul'' | Some z \<Rightarrow> z) 1770467405042"
    by (simp add: malformed_expression_def every_minute_def)
  have r1: "parseCron every_minute 1770467405042 ''* * * * *'' (Some ''UTC'') (Some 3) =
     \<lparr>expression = ''* * * * *'', isValid = True,
      nextRuns = [1770467460000, 1770467520000, 1770467580000], error = None\<rparr>"
    by (simp add: parseCron_def every_minute_def Let_def eval_nat_numeral)
  have r2: "parseCron every_minute 1770467405042 ''60 * * * *'' None None =
     \<lparr>expression = ''60 * * * *'', isValid = False, nextRuns = [],
      error = Some ''Invalid cron expression: 60 * * * *''\<rparr>"
    by (simp add: parseCron_def every_minute_def Let_def caught_def)
  from v parseCron_contract [of every_minute "\<lambda>i t. i = t" "''* * * * *''" "Some ''UTC''"
      1770467405042 "Some 3"]
  have "isValid (parseCron every_minute 1770467405042 ''* * * * *'' (Some ''UTC'') (Some 3))"
    by blast
  moreover from m parseCron_contract [of every_minute "\<lambda>i t. i = t" "''60 * * * *''" None
      1770467405042 None]
  have "\<not> isValid (parseCron every_minute 1770467405042 ''60 * * * *'' None None)"
    by blast
  ultimately show ?thesis using v m r1 r2 by simp
qed

section \<open>Further properties\<close>

lemma getManifestPath_files [simp]:
  "getManifestPath (fs\<lparr>files := f\<rparr>) s basePath = getManifestPath fs s basePath"
  by (cases basePath) (simp_all add: getManifestPath_def getWorkflowsDir_def)

text \<open>
  A manifest saved to a writable path and loaded again by its slug is the
  manifest that was saved.
\<close>

theorem saveManifest_loadManifest:
  assumes "writable fs (getManifestPath fs (m_slug m) basePath)"
  shows "\<exists>fs'. saveManifest fs m basePath = Inr fs' \<and>
           loadManifest fs' (m_slug m) basePath = Inr m"
  using assms
  by (simp add: saveManifest_def writeJson_def loadManifest_def readJson_def manifest_roundtrip)

text \<open>
  A new manifest carries exactly the two management tags, the sentinel and
  the slug tag, the creation time, and no deployment fields.
\<close>

theorem createManifest_tags:
  "m_tags (createManifest now s n t e z) = [''managed-by:cron8n'', ''cron8n:'' @ s] \<and>
   lastDeployedWorkflowId (createManifest now s n t e z) = None \<and>
   lastDeployedAt (createManifest now s n t e z) = None \<and>
   createdAt (createManifest now s n t e z) = getISOTimestamp now"
  by (simp add: createManifest_def createTags_def)

text \<open>
  A registry file that is missing, unreadable, no JSON, or JSON of the
  wrong shape loads as the empty registry.
\<close>

theorem loadRegistry_corrupt:
  "loadRegistry (fs\<lparr>files := (files fs)(REGISTRY_FILE fs := None)\<rparr>) = \<lparr>workflows = []\<rparr> \<and>
   loadRegistry (fs\<lparr>files := (files fs)(REGISTRY_FILE fs \<mapsto> Unreadable)\<rparr>) = \<lparr>workflows = []\<rparr> \<and>
   loadRegistry (fs\<lparr>files := (files fs)(REGISTRY_FILE fs \<mapsto> NotJson)\<rparr>) = \<lparr>workflows = []\<rparr> \<and>
   loadRegistry (fs\<lparr>files := (files fs)(REGISTRY_FILE fs \<mapsto> Doc (JObj []))\<rparr>) = \<lparr>workflows = []\<rparr>"
  by (simp add: loadRegistry_def exists_file_def readJson_def property_def)

lemma squeeze_id:
  "\<forall>c\<in>set s. \<not> P c \<Longrightarrow> squeeze P b s = s"
  by (induction s arbitrary: b) auto

lemma squeeze_hyphen_id:
  "successively no_double s \<Longrightarrow> (b \<longrightarrow> s = [] \<or> hd s \<noteq> CHR ''-'') \<Longrightarrow>
   squeeze is_hyphen b s = s"
proof (induction s arbitrary: b)
  case Nil
  then show ?case by simp
next
  case (Cons c cs)
  then show ?case
    by (cases cs) (auto simp: successively_Cons is_hyphen_def no_double_def)
qed

lemma dropWhile_id: "s = [] \<or> \<not> P (hd s) \<Longrightarrow> dropWhile P s = s"
  by (cases s) auto

lemma trim_both_id:
  "s = [] \<or> (\<not> P (hd s) \<and> \<not> P (last s)) \<Longrightarrow> rev (dropWhile P (rev (dropWhile P s))) = s"
proof -
  assume a: "s = [] \<or> (\<not> P (hd s) \<and> \<not> P (last s))"
  then have "dropWhile P s = s" by (intro dropWhile_id) auto
  moreover from a have "dropWhile P (rev s) = rev s"
    by (intro dropWhile_id) (auto simp: hd_rev)
  ultimately show ?thesis by simp
qed

lemma lower_char_id: "is_lower_alnum c \<or> c = CHR ''-'' \<Longrightarrow> lower_char c = c"
  by (auto simp: lower_char_def is_lower_alnum_def is_lower_def is_digit_def is_upper_def code_def)

text \<open>\<^verbatim>\<open>createSlug\<close> is idempotent: a slug is its own slug.\<close>

theorem createSlug_idempotent: "createSlug (createSlug x) = createSlug x"
proof -
  let ?s = "createSlug x"
  have chars: "\<forall>c\<in>set ?s. is_lower_alnum c \<or> c = CHR ''-''"
    using createSlug_chars by blast
  have succ: "successively no_double ?s"
    unfolding createSlug_def by (intro trim_hyphens_successively) (simp add: squeeze_hyphen_shape)
  have ends: "?s = [] \<or> (hd ?s \<noteq> CHR ''-'' \<and> last ?s \<noteq> CHR ''-'')"
    unfolding createSlug_def using trim_hyphens_hd trim_hyphens_last by blast
  have l: "toLowerCase ?s = ?s"
    unfolding toLowerCase_def using chars by (intro map_idI) (simp add: lower_char_id)
  have hd_in: "?s \<noteq> [] \<Longrightarrow> hd ?s \<in> set ?s \<and> last ?s \<in> set ?s" by simp
  have nsp: "\<not> is_space c" if "is_lower_alnum c \<or> c = CHR ''-''" for c
    using that by (auto simp: is_space_def is_lower_alnum_def is_lower_def is_digit_def code_def)
  have t: "trim ?s = ?s"
    unfolding trim_def using hd_in chars nsp by (intro trim_both_id) blast
  have k: "keeps c" if "is_lower_alnum c \<or> c = CHR ''-''" for c
    using that by (auto simp: keeps_def is_word_def is_alnum_def is_lower_alnum_def)
  have r: "remove_special ?s = ?s"
    unfolding remove_special_def using chars k by (simp add: filter_id_conv)
  have nsep: "\<not> is_sep c" if "is_lower_alnum c \<or> c = CHR ''-''" for c
    using that nsp [of c]
    by (auto simp: is_sep_def is_lower_alnum_def is_lower_def is_digit_def code_def)
  have q1: "squeeze is_sep False ?s = ?s"
    using chars nsep by (intro squeeze_id) blast
  have q2: "squeeze is_hyphen False ?s = ?s"
    using succ by (intro squeeze_hyphen_id) simp_all
  have h: "trim_hyphens ?s = ?s"
    unfolding trim_hyphens_def using ends by (intro trim_both_id) (auto simp: is_hyphen_def)
  show ?thesis
    by (subst createSlug_def) (simp only: l t r q1 q2 h)
qed

text \<open>
  With no limit, or the limit 0, \<^verbatim>\<open>listWorkflows\<close> never returns from a
  server that answers every request with a page that carries a non-empty cursor: the
  loop has no bound on the number of pages.
\<close>

theorem listWorkflows_never_returns:
  assumes nl: "\<not> truthy_number (opt_limit options)"
    and more: "\<And>s req. \<exists>d c s'. answers srv s req (WorkflowListResponse d (Some c)) s' \<and> c \<noteq> []"
  shows "listWorkflows srv options net = None"
proof (rule ccontr)
  assume "listWorkflows srv options net \<noteq> None"
  then obtain y where y: "listWorkflows_loop srv options [] (opt_cursor options) net = Some y"
    by (auto simp: listWorkflows_def)
  have "srv = srv \<longrightarrow> options = options \<longrightarrow> False"
  proof (rule listWorkflows_loop.raw_induct
      [where P = "\<lambda>a b c d e f. a = srv \<longrightarrow> b = options \<longrightarrow> False", OF _ y])
    fix loop :: "'a server \<Rightarrow> ListWorkflowsOptions \<Rightarrow> N8nWorkflow list \<Rightarrow> string option
        \<Rightarrow> 'a network \<Rightarrow> ((error + N8nWorkflow list) \<times> 'a network) option"
      and a b collected cursor net' y'
    assume IH: "\<And>a b c d e y. loop a b c d e = Some y \<Longrightarrow> a = srv \<longrightarrow> b = options \<longrightarrow> False"
      and body: "(case request a GET (WorkflowsPath (list_params b cursor)) None net' of
        (Inl err, net') \<Rightarrow> Some (Inl err, net')
      | (Inr response, net') \<Rightarrow>
          (case WorkflowListResponseSchema_parse response of
             None \<Rightarrow> Some (Inl ZodError, net')
           | Some (d, nextCursor) \<Rightarrow>
               if truthy_number (opt_limit b) then Some (Inr (collected @ d), net')
               else if truthy_string nextCursor
                    then loop a b (collected @ d) nextCursor net'
                    else Some (Inr (collected @ d), net'))) = Some y'"
    show "a = srv \<longrightarrow> b = options \<longrightarrow> False"
    proof (intro impI)
      assume e: "a = srv" "b = options"
      from more [of "server_state net'" "list_request options cursor"] obtain d c s' where
        a: "answers srv (server_state net') (list_request options cursor)
              (WorkflowListResponse d (Some c)) s'" and c: "c \<noteq> []"
        by blast
      from a have "request srv GET (WorkflowsPath (list_params options cursor)) None net' =
         (Inr (WorkflowListResponse d (Some c)),
          \<lparr>server_state = s', sent = sent net' @ [list_request options cursor]\<rparr>)"
        unfolding list_request_def by (intro request_answers) simp
      with body e nl c have "loop srv options (collected @ d) (Some c)
          \<lparr>server_state = s', sent = sent net' @ [list_request options cursor]\<rparr> = Some y'"
        by simp
      from IH [OF this] show False by simp
    qed
  qed
  then show False by simp
qed


theorem listWorkflows_never_returns_witness:
  "\<not> truthy_number (opt_limit (list_options None)) \<and>
   answers endless 0 (list_request (list_options None) None)
     (WorkflowListResponse [] (Some ''more'')) 1 \<and>
   listWorkflows endless (list_options None) \<lparr>server_state = 0, sent = []\<rparr> = None"
proof -
  have n: "\<not> truthy_number (opt_limit (list_options None))" by (simp add: list_options_def)
  have a: "answers endless s req (WorkflowListResponse [] (Some ''more'')) (Suc s)" for s req
    by (simp add: answers_def endless_def ok_def api_result_def)
  then have "\<exists>d c s'. answers endless s req (WorkflowListResponse d (Some c)) s' \<and> c \<noteq> []"
    for s req by (intro exI [of _ "[]"] exI [of _ "''more''"] exI [of _ "Suc s"]) simp
  from listWorkflows_never_returns [OF n this]
  have "listWorkflows endless (list_options None) \<lparr>server_state = 0, sent = []\<rparr> = None" .
  with n a [of 0 "list_request (list_options None) None"] show ?thesis by simp
qed

theorem saveManifest_loadManifest_witness:
  "writable manifest_fs (getManifestPath manifest_fs (m_slug deployed_manifest) None) \<and>
   (\<exists>fs'. saveManifest manifest_fs deployed_manifest None = Inr fs' \<and>
          loadManifest fs' ''daily-backup'' None = Inr deployed_manifest)"
proof -
  have w: "writable manifest_fs (getManifestPath manifest_fs (m_slug deployed_manifest) None)"
    by (simp add: manifest_fs_def)
  have s: "m_slug deployed_manifest = ''daily-backup''" by (simp add: deployed_manifest_def)
  from saveManifest_loadManifest [OF w] w s show ?thesis by simp
qed

end
